(* ===== verification/Prelude.thy ===== *)
theory Prelude
  imports Main "HOL-Library.AList" "HOL-Library.Sublist"
begin

text \<open>
  What every component of the development shares.

  \<^item> Errors and panics.  A Go function that returns an \<open>error\<close> returns an
    \<^verbatim>\<open>error + 'a\<close> (or an \<^verbatim>\<open>error option\<close> when the error is its only result).
    A Go statement that can panic returns an \<^verbatim>\<open>'a outcome\<close>; the state it had
    mutated before the panic is returned beside it, because deferred unlocks run and a
    recovering caller sees that state.
  \<^item> Buffered channels, with the three operations the program uses: a non-blocking
    send (\<open>select { case ch <- v: default: }\<close>), a receive and \<open>close\<close>.
  \<^item> Generic facts on lists and association lists.

  The collection \<open>outcome_simps\<close> holds the inversion facts of results; component
  proofs use it as \<open>simp add: outcome_simps\<close>.
\<close>

section \<open>Errors and panics\<close>

datatype error = Error string

type_synonym 'a result = "error + 'a"

datatype 'a outcome = Returns 'a | Panics string

named_theorems outcome_simps "inversion of results and outcomes"

primrec panics :: "'a outcome \<Rightarrow> bool" where
  "panics (Returns _) = False"
| "panics (Panics _) = True"

lemma panics_iff [outcome_simps]: "panics r \<longleftrightarrow> (\<exists>m. r = Panics m)"
  by (cases r) auto

lemma not_panics_iff [outcome_simps]: "\<not> panics r \<longleftrightarrow> (\<exists>x. r = Returns x)"
  by (cases r) auto

text \<open>A Go function with an error result, continued when the error is nil.\<close>

definition and_then :: "'e + 'a \<Rightarrow> ('a \<Rightarrow> 'e + 'b) \<Rightarrow> 'e + 'b" where
  "and_then r f = (case r of Inl e \<Rightarrow> Inl e | Inr x \<Rightarrow> f x)"

lemma and_then_simps [simp]:
  "and_then (Inl e) f = Inl e"
  "and_then (Inr x) f = f x"
  by (simp_all add: and_then_def)

lemma and_then_Inr_iff [outcome_simps]:
  "and_then r f = Inr y \<longleftrightarrow> (\<exists>x. r = Inr x \<and> f x = Inr y)"
  by (cases r) auto

lemma and_then_Inl_iff [outcome_simps]:
  "and_then r f = Inl e \<longleftrightarrow> r = Inl e \<or> (\<exists>x. r = Inr x \<and> f x = Inl e)"
  by (cases r) auto

text \<open>An error replaced by another one, as \<open>fmt.Errorf\<close> does.\<close>

definition wrap_error :: "('e \<Rightarrow> 'f) \<Rightarrow> 'e + 'a \<Rightarrow> 'f + 'a" where
  "wrap_error g r = (case r of Inl e \<Rightarrow> Inl (g e) | Inr x \<Rightarrow> Inr x)"

lemma wrap_error_simps [simp]:
  "wrap_error g (Inl e) = Inl (g e)"
  "wrap_error g (Inr x) = Inr x"
  by (simp_all add: wrap_error_def)

lemma wrap_error_Inr_iff [outcome_simps]: "wrap_error g r = Inr x \<longleftrightarrow> r = Inr x"
  by (cases r) auto

section \<open>Buffered channels\<close>

record 'a chan =
  ch_buf :: "'a list"
  ch_cap :: nat
  ch_closed :: bool

definition make_chan :: "nat \<Rightarrow> 'a chan" where
  "make_chan n = \<lparr>ch_buf = [], ch_cap = n, ch_closed = False\<rparr>"

text \<open>
  \<open>select { case ch <- v: default: }\<close>: a send on a closed channel panics; on an open
  channel the value is queued when the buffer has room and dropped otherwise.
\<close>

definition try_send :: "'a chan \<Rightarrow> 'a \<Rightarrow> 'a chan outcome" where
  "try_send c v =
     (if ch_closed c then Panics ''send on closed channel''
      else if length (ch_buf c) < ch_cap c then Returns (c\<lparr>ch_buf := ch_buf c @ [v]\<rparr>)
      else Returns c)"

definition close_chan :: "'a chan \<Rightarrow> 'a chan outcome" where
  "close_chan c =
     (if ch_closed c then Panics ''close of closed channel''
      else Returns (c\<lparr>ch_closed := True\<rparr>))"

text \<open>A receive: a value, the end of a closed and drained channel, or blocking.\<close>

datatype 'a received = Received 'a | Drained | Blocks

definition recv :: "'a chan \<Rightarrow> 'a received \<times> 'a chan" where
  "recv c =
     (case ch_buf c of
        v # vs \<Rightarrow> (Received v, c\<lparr>ch_buf := vs\<rparr>)
      | [] \<Rightarrow> (if ch_closed c then Drained else Blocks, c))"

lemma make_chan_sel [simp]:
  "ch_buf (make_chan n) = []" "ch_cap (make_chan n) = n" "\<not> ch_closed (make_chan n)"
  by (simp_all add: make_chan_def)

lemma close_chan_panics_iff: "panics (close_chan c) \<longleftrightarrow> ch_closed c"
  by (simp add: close_chan_def)

section \<open>Lists\<close>

text \<open>The updated index need not be in range.\<close>

lemma nth_list_update_if:
  "j < length xs \<Longrightarrow> xs[i := y] ! j = (if i = j then y else xs ! j)"
  by (simp add: nth_list_update)

lemma removeAll_eq_Nil_iff [simp]: "removeAll x xs = [] \<longleftrightarrow> set xs \<subseteq> {x}"
  by (induction xs) auto

section \<open>Association lists\<close>

text \<open>
  Maps with a deletion are association lists; \<^const>\<open>AList.update\<close> and
  \<^const>\<open>AList.delete\<close> keep their keys distinct.
\<close>

definition keys_distinct :: "('k \<times> 'v) list \<Rightarrow> bool" where
  "keys_distinct kvs \<longleftrightarrow> distinct (map fst kvs)"

lemma keys_distinct_Nil [simp]: "keys_distinct []"
  by (simp add: keys_distinct_def)

lemma keys_distinct_update [simp, intro]:
  "keys_distinct kvs \<Longrightarrow> keys_distinct (AList.update k v kvs)"
  by (simp add: keys_distinct_def distinct_update)

lemma keys_distinct_delete [simp, intro]:
  "keys_distinct kvs \<Longrightarrow> keys_distinct (AList.delete k kvs)"
  by (simp add: keys_distinct_def distinct_delete)

lemma set_alist_iff:
  "keys_distinct kvs \<Longrightarrow> (k, v) \<in> set kvs \<longleftrightarrow> map_of kvs k = Some v"
  by (simp add: keys_distinct_def)

lemma map_of_update [simp]: "map_of (AList.update k v kvs) = (map_of kvs)(k \<mapsto> v)"
  by (rule update_conv')

lemma map_of_delete [simp]: "map_of (AList.delete k kvs) = (map_of kvs)(k := None)"
  by (rule delete_conv')

lemma empty_iff_map_of: "kvs = [] \<longleftrightarrow> map_of kvs = Map.empty"
  by (cases kvs) auto

end
