(* ===== verification/Go_Strings.thy ===== *)
theory Go_Strings
  imports Prelude
begin

text \<open>
  The functions of Go's \<open>strings\<close>, \<open>strconv\<close>, \<open>fmt\<close> and \<open>net\<close> packages that the
  program calls on strings.  A Go string is a sequence of bytes and so is an Isabelle
  \<^typ>\<open>string\<close> (a list of 8-bit characters); lengths count bytes in both.
\<close>

section \<open>Searching and replacing\<close>

definition has_prefix :: "string \<Rightarrow> string \<Rightarrow> bool" where
  "has_prefix s p \<longleftrightarrow> take (length p) s = p"

lemma has_prefix_iff: "has_prefix s p \<longleftrightarrow> (\<exists>t. s = p @ t)"
  unfolding has_prefix_def by (metis append_eq_conv_conj append_take_drop_id)

lemma has_prefix_append [simp]: "has_prefix (p @ t) p"
  by (simp add: has_prefix_def)

lemma has_prefix_same_append [simp]: "has_prefix (p @ s) (p @ q) \<longleftrightarrow> has_prefix s q"
  by (simp add: has_prefix_def)

lemma has_prefix_length: "has_prefix s p \<Longrightarrow> length p \<le> length s"
  by (auto simp: has_prefix_iff)

text \<open>\<open>strings.Index\<close>: the first offset at which the substring occurs.\<close>

fun str_index :: "string \<Rightarrow> string \<Rightarrow> nat option" where
  "str_index s sub =
     (if has_prefix s sub then Some 0
      else (case s of [] \<Rightarrow> None | _ # t \<Rightarrow> map_option Suc (str_index t sub)))"

declare str_index.simps [simp del]

lemma str_index_Some_iff:
  "str_index s sub = Some i \<longleftrightarrow>
     i \<le> length s \<and> has_prefix (drop i s) sub \<and> (\<forall>j<i. \<not> has_prefix (drop j s) sub)"
proof (induction s arbitrary: i)
  case Nil
  show ?case by (auto simp: str_index.simps [of "[]"])
next
  case (Cons c t)
  show ?case
  proof (cases "has_prefix (c # t) sub")
    case True
    then show ?thesis by (cases i) (auto simp: str_index.simps [of "c # t"])
  next
    case False
    then show ?thesis
      by (cases i) (auto simp: str_index.simps [of "c # t"] Cons.IH less_Suc_eq_0_disj)
  qed
qed

lemma str_index_None_iff:
  "str_index s sub = None \<longleftrightarrow> (\<forall>i \<le> length s. \<not> has_prefix (drop i s) sub)"
proof (induction s)
  case Nil
  show ?case by (simp add: str_index.simps [of "[]"])
next
  case (Cons c t)
  have "(\<forall>i \<le> length (c # t). \<not> has_prefix (drop i (c # t)) sub) \<longleftrightarrow>
        \<not> has_prefix (c # t) sub \<and> (\<forall>i \<le> length t. \<not> has_prefix (drop i t) sub)"
    by (metis drop0 drop_Suc_Cons le0 length_Cons not0_implies_Suc Suc_le_mono)
  with Cons.IH show ?case by (simp add: str_index.simps [of "c # t"])
qed

text \<open>\<open>strings.Replace(s, old, new, 1)\<close>.\<close>

definition replace_first :: "string \<Rightarrow> string \<Rightarrow> string \<Rightarrow> string" where
  "replace_first s old new =
     (case str_index s old of
        None \<Rightarrow> s
      | Some i \<Rightarrow> take i s @ new @ drop (i + length old) s)"

lemma replace_first_at:
  assumes "str_index s old = Some (length a)" and "s = a @ old @ b"
  shows "replace_first s old new = a @ new @ b"
  using assms by (simp add: replace_first_def)

text \<open>\<open>strings.TrimRight\<close>.\<close>

definition trim_right :: "string \<Rightarrow> string \<Rightarrow> string" where
  "trim_right s cutset = rev (dropWhile (\<lambda>c. c \<in> set cutset) (rev s))"

lemma trim_right_last:
  assumes "trim_right s cutset \<noteq> []"
  shows "last (trim_right s cutset) \<notin> set cutset"
  using assms hd_dropWhile [of "\<lambda>c. c \<in> set cutset" "rev s"]
  by (simp add: trim_right_def last_rev)

lemma trim_right_split: "\<exists>t. s = trim_right s cutset @ t \<and> set t \<subseteq> set cutset"
proof -
  let ?P = "\<lambda>c. c \<in> set cutset"
  have "s = rev (dropWhile ?P (rev s)) @ rev (takeWhile ?P (rev s))"
    by (metis rev_append rev_rev_ident takeWhile_dropWhile_id)
  moreover have "set (rev (takeWhile ?P (rev s))) \<subseteq> set cutset"
    by (auto dest: set_takeWhileD)
  ultimately show ?thesis unfolding trim_right_def by blast
qed

lemma trim_right_idem: "trim_right (trim_right s cutset) cutset = trim_right s cutset"
  by (simp add: trim_right_def dropWhile_idem)

section \<open>Numbers in decimal\<close>

text \<open>\<open>fmt.Sprintf("%d", n)\<close>.\<close>

fun nat_to_string :: "nat \<Rightarrow> string" where
  "nat_to_string n =
     (if n < 10 then [char_of (48 + n)]
      else nat_to_string (n div 10) @ [char_of (48 + n mod 10)])"

declare nat_to_string.simps [simp del]

definition itoa :: "int \<Rightarrow> string" where
  "itoa i = (if i < 0 then CHR ''-'' # nat_to_string (nat (- i)) else nat_to_string (nat i))"

definition digits_value :: "string \<Rightarrow> nat" where
  "digits_value = foldl (\<lambda>v c. 10 * v + (of_char c - 48)) 0"

lemma digits_value_snoc: "digits_value (s @ [c]) = 10 * digits_value s + (of_char c - 48)"
  by (simp add: digits_value_def)

lemma digits_value_nat_to_string: "digits_value (nat_to_string n) = n"
proof (induction n rule: nat_to_string.induct)
  case (1 n)
  show ?case
  proof (cases "n < 10")
    case True
    then show ?thesis
      by (simp add: nat_to_string.simps [of n] digits_value_def)
  next
    case False
    then show ?thesis
      by (simp add: nat_to_string.simps [of n] digits_value_snoc "1.IH" [OF False])
  qed
qed

lemma nat_to_string_inj: "nat_to_string m = nat_to_string n \<longleftrightarrow> m = n"
  by (metis digits_value_nat_to_string)

lemma nat_to_string_digits: "c \<in> set (nat_to_string n) \<Longrightarrow> 48 \<le> (of_char c :: nat) \<and> (of_char c :: nat) \<le> 57"
proof (induction n rule: nat_to_string.induct)
  case (1 n)
  show ?case
  proof (cases "n < 10")
    case True
    with "1.prems" show ?thesis by (auto simp: nat_to_string.simps [of n])
  next
    case False
    have "n mod 10 < 10" by simp
    then have "48 \<le> (of_char (char_of (48 + n mod 10)) :: nat)
        \<and> (of_char (char_of (48 + n mod 10) :: char) :: nat) \<le> 57"
      by simp
    with False "1.prems" "1.IH" [OF False] show ?thesis
      by (auto simp: nat_to_string.simps [of n])
  qed
qed

lemma itoa_inj: "itoa i = itoa j \<longleftrightarrow> i = j"
proof -
  have neg: "nat_to_string m \<noteq> CHR ''-'' # t" for m t
    using nat_to_string_digits [of "CHR ''-''" m] by auto
  show ?thesis
    by (auto simp: itoa_def nat_to_string_inj neg neg [symmetric] split: if_splits)
qed

lemma itoa_no_colon: "CHR '':'' \<notin> set (itoa i)"
  using nat_to_string_digits [of "CHR '':''"] by (auto simp: itoa_def)

lemma append_sep_inj:
  "c \<notin> set a \<Longrightarrow> c \<notin> set b \<Longrightarrow> a @ c # s = b @ c # t \<longleftrightarrow> a = b \<and> s = t"
proof (induction a arbitrary: b)
  case Nil
  then show ?case by (cases b) auto
next
  case (Cons x a)
  then show ?case by (cases b) auto
qed

section \<open>Addresses\<close>

text \<open>\<open>net.JoinHostPort\<close>: a host with a colon is put in brackets.\<close>

definition join_host_port :: "string \<Rightarrow> string \<Rightarrow> string" where
  "join_host_port host port =
     (if CHR '':'' \<in> set host then ''['' @ host @ '']:'' @ port else host @ '':'' @ port)"

lemma join_host_port_inj:
  "join_host_port host p = join_host_port host q \<longleftrightarrow> p = q"
  by (simp add: join_host_port_def)

end
