(* ===== verification/Go_Json.thy ===== *)
theory Go_Json
  imports Go_Strings
begin

text \<open>
  What the program uses of \<open>encoding/json\<close>.  A document is the value the package's
  scanner reads (\<open>None\<close> stands for text that is not JSON); decoding into a struct follows
  the package: members are taken in document order, a member selects the field with
  exactly its name or else the first field whose case-folded name equals the member's
  case-folded name, \<open>null\<close> leaves a field alone, a value of the wrong kind is an error,
  and an unknown member is an error only under \<open>DisallowUnknownFields\<close>.

  Number literals with a fraction or an exponent (\<open>JFrac\<close>) never decode into an \<open>int\<close>.
\<close>

datatype json =
    JNull
  | JBool bool
  | JInt int
  | JFrac string
  | JStr string
  | JArr "json list"
  | JObj "(string \<times> json) list"

datatype json_error = JSyntax | JTypeMismatch string | JUnknownField string

section \<open>Field selection\<close>

definition upper :: "char \<Rightarrow> char" where
  "upper c = (if 97 \<le> (of_char c :: nat) \<and> (of_char c :: nat) \<le> 122
              then char_of ((of_char c :: nat) - 32) else c)"

text \<open>
  \<open>foldName\<close>: ASCII letters are upper-cased; the two other runes whose fold is an ASCII
  letter are the long s (bytes C5 BF) and the Kelvin sign (bytes E2 84 AA).
\<close>

fun fold_name :: "string \<Rightarrow> string" where
  "fold_name [] = []"
| "fold_name (c # cs) =
     (if take 2 (c # cs) = [CHR 0xC5, CHR 0xBF] then CHR ''S'' # fold_name (drop 1 cs)
      else if take 3 (c # cs) = [CHR 0xE2, CHR 0x84, CHR 0xAA] then CHR ''K'' # fold_name (drop 2 cs)
      else upper c # fold_name cs)"

definition match_field :: "string list \<Rightarrow> string \<Rightarrow> string option" where
  "match_field names key =
     (if key \<in> set names then Some key
      else find (\<lambda>n. fold_name n = fold_name key) names)"

lemma match_field_exact [simp]: "key \<in> set names \<Longrightarrow> match_field names key = Some key"
  by (simp add: match_field_def)

lemma match_field_Some: "match_field names key = Some n \<Longrightarrow> n \<in> set names"
  by (auto simp: match_field_def find_Some_iff split: if_splits)

section \<open>Decoding\<close>

text \<open>Scalar fields: the current value, the JSON value, the new value.\<close>

definition decode_string :: "string \<Rightarrow> string \<Rightarrow> json \<Rightarrow> json_error + string" where
  "decode_string field old v =
     (case v of JStr s \<Rightarrow> Inr s | JNull \<Rightarrow> Inr old | _ \<Rightarrow> Inl (JTypeMismatch field))"

abbreviation fits_int :: "int \<Rightarrow> bool" where
  "fits_int i \<equiv> - (2 ^ 63) \<le> i \<and> i < 2 ^ 63"

definition decode_int :: "string \<Rightarrow> int \<Rightarrow> json \<Rightarrow> json_error + int" where
  "decode_int field old v =
     (case v of
        JInt i \<Rightarrow> (if fits_int i then Inr i else Inl (JTypeMismatch field))
      | JNull \<Rightarrow> Inr old
      | _ \<Rightarrow> Inl (JTypeMismatch field))"

fun decode_members ::
  "string list \<Rightarrow> bool \<Rightarrow> (string \<Rightarrow> json \<Rightarrow> 'r \<Rightarrow> json_error + 'r) \<Rightarrow>
   (string \<times> json) list \<Rightarrow> 'r \<Rightarrow> json_error + 'r" where
  "decode_members names strict setf [] r = Inr r"
| "decode_members names strict setf ((k, v) # ms) r =
     (case match_field names k of
        None \<Rightarrow> (if strict then Inl (JUnknownField k) else decode_members names strict setf ms r)
      | Some n \<Rightarrow> and_then (setf n v r) (decode_members names strict setf ms))"

text \<open>
  Decoding a document into a struct with the given JSON names.  A \<open>null\<close> document leaves
  the struct as it is; any other document that is not an object is a type error.
\<close>

definition decode_struct ::
  "string list \<Rightarrow> bool \<Rightarrow> (string \<Rightarrow> json \<Rightarrow> 'r \<Rightarrow> json_error + 'r) \<Rightarrow>
   json option \<Rightarrow> 'r \<Rightarrow> json_error + 'r" where
  "decode_struct names strict setf doc r =
     (case doc of
        None \<Rightarrow> Inl JSyntax
      | Some JNull \<Rightarrow> Inr r
      | Some (JObj ms) \<Rightarrow> decode_members names strict setf ms r
      | Some _ \<Rightarrow> Inl (JTypeMismatch []))"

lemma decode_members_append:
  "decode_members names strict setf (ms @ ns) r =
     and_then (decode_members names strict setf ms r) (decode_members names strict setf ns)"
  by (induction names strict setf ms r rule: decode_members.induct)
    (auto simp: and_then_def split: option.splits sum.splits)

text \<open>What every field setter keeps, decoding keeps, on every document.\<close>

lemma decode_members_keeps:
  assumes "\<And>n v r r'. P r \<Longrightarrow> setf n v r = Inr r' \<Longrightarrow> P r'"
  shows "decode_members names strict setf ms r = Inr r' \<Longrightarrow> P r \<Longrightarrow> P r'"
proof (induction ms arbitrary: r)
  case (Cons m ms)
  obtain k v where "m = (k, v)" by force
  with Cons show ?case
    by (auto simp: and_then_Inr_iff split: option.splits if_splits dest: assms)
qed simp

lemma decode_struct_keeps:
  assumes "\<And>n v r r'. P r \<Longrightarrow> setf n v r = Inr r' \<Longrightarrow> P r'"
    and "decode_struct names strict setf doc r = Inr r'" and "P r"
  shows "P r'"
  using assms(2,3) decode_members_keeps [where P = P, OF assms(1)]
  by (auto simp: decode_struct_def split: option.splits json.splits)

lemma decode_int_fits: "decode_int field old v = Inr i \<Longrightarrow> fits_int old \<Longrightarrow> fits_int i"
  by (auto simp: decode_int_def split: json.splits if_splits)

section \<open>Generic values\<close>

text \<open>
  Decoding into \<open>interface{}\<close> builds a Go map per object (the last duplicate wins) and
  \<open>Marshal\<close> of such a map writes its keys in byte order.  \<open>generic\<close> is the composition.
\<close>

fun str_less :: "string \<Rightarrow> string \<Rightarrow> bool" where
  "str_less _ [] = False"
| "str_less [] (_ # _) = True"
| "str_less (x # xs) (y # ys) =
     ((of_char x :: nat) < of_char y \<or> x = y \<and> str_less xs ys)"

fun put_member :: "string \<Rightarrow> 'v \<Rightarrow> (string \<times> 'v) list \<Rightarrow> (string \<times> 'v) list" where
  "put_member k v [] = [(k, v)]"
| "put_member k v ((k', v') # ms) =
     (if k = k' then (k, v) # ms
      else if str_less k k' then (k, v) # (k', v') # ms
      else (k', v') # put_member k v ms)"

fun generic :: "json \<Rightarrow> json" where
  "generic (JObj ms) =
     JObj (foldl (\<lambda>acc (k, v). put_member k v acc) [] (map (\<lambda>(k, v). (k, generic v)) ms))"
| "generic (JArr vs) = JArr (map generic vs)"
| "generic v = v"

lemma str_less_irrefl: "\<not> str_less s s"
  by (induction s) auto

lemma str_less_trans: "str_less s t \<Longrightarrow> str_less t u \<Longrightarrow> str_less s u"
proof (induction s t arbitrary: u rule: str_less.induct)
  case (2 y ys)
  then show ?case by (cases u) auto
next
  case (3 x xs y ys)
  then show ?case by (cases u) auto
qed simp

lemma str_less_linear: "s \<noteq> t \<Longrightarrow> str_less s t \<or> str_less t s"
proof (induction s t rule: str_less.induct)
  case (1 s)
  then show ?case by (cases s) auto
next
  case (3 x xs y ys)
  have "x \<noteq> y \<Longrightarrow> (of_char x :: nat) \<noteq> of_char y" by simp
  with 3 show ?case by (auto simp: not_less_iff_gr_or_eq)
qed simp

definition members_sorted :: "(string \<times> 'v) list \<Rightarrow> bool" where
  "members_sorted ms \<longleftrightarrow> sorted_wrt (\<lambda>a b. str_less (fst a) (fst b)) ms"

lemma put_member_keys: "fst ` set (put_member k v ms) = insert k (fst ` set ms)"
  by (induction k v ms rule: put_member.induct) auto

lemma put_member_sorted: "members_sorted ms \<Longrightarrow> members_sorted (put_member k v ms)"
proof (induction k v ms rule: put_member.induct)
  case (2 k v k' v' ms)
  have tail: "members_sorted ms" and head: "\<forall>p \<in> set ms. str_less k' (fst p)"
    using "2.prems" by (auto simp: members_sorted_def)
  consider "k = k'" | "k \<noteq> k'" "str_less k k'" | "k \<noteq> k'" "\<not> str_less k k'" by blast
  then show ?case
  proof cases
    case 1
    with tail head show ?thesis by (simp add: members_sorted_def)
  next
    case 2
    with tail head show ?thesis by (auto simp: members_sorted_def intro: str_less_trans)
  next
    case 3
    then have "str_less k' k" using str_less_linear by blast
    then have "\<forall>p \<in> set (put_member k v ms). str_less k' (fst p)"
      using head put_member_keys [of k v ms] by (metis image_iff insert_iff)
    with 3 "2.IH" tail show ?thesis by (simp add: members_sorted_def)
  qed
qed (simp add: members_sorted_def)

lemma map_of_put_member:
  "members_sorted ms \<Longrightarrow> map_of (put_member k v ms) = (map_of ms)(k \<mapsto> v)"
proof (induction k v ms rule: put_member.induct)
  case (2 k v k' v' ms)
  then have "members_sorted ms" by (simp add: members_sorted_def)
  with 2 show ?case by (auto simp: fun_upd_twist)
qed simp

lemma generic_fold:
  "members_sorted acc \<Longrightarrow>
   members_sorted (foldl (\<lambda>acc (k, v). put_member k v acc) acc ms) \<and>
   map_of (foldl (\<lambda>acc (k, v). put_member k v acc) acc ms) = map_of acc ++ map_of (rev ms)"
proof (induction ms arbitrary: acc)
  case (Cons m ms)
  obtain k v where m: "m = (k, v)" by force
  have "members_sorted (put_member k v acc)" using Cons.prems by (rule put_member_sorted)
  from Cons.IH [OF this] m show ?case
    by (auto simp: map_of_put_member Cons.prems map_add_def fun_eq_iff split: option.splits)
qed simp

text \<open>Looking a member up in the written object gives the last value the document had.\<close>

lemma generic_lookup:
  "generic (JObj ms) = JObj ns \<Longrightarrow>
     members_sorted ns \<and> map_of ns k = map_option generic (map_of (rev ms) k)"
proof -
  assume "generic (JObj ms) = JObj ns"
  then have ns: "ns = foldl (\<lambda>acc (k, v). put_member k v acc) [] (map (\<lambda>(k, v). (k, generic v)) ms)"
    by simp
  have "members_sorted ([] :: (string \<times> json) list)" by (simp add: members_sorted_def)
  from generic_fold [OF this, of "map (\<lambda>(k, v). (k, generic v)) ms"]
  show ?thesis by (simp add: ns rev_map map_of_map)
qed

end
