(* ===== verification/Go_Os.thy ===== *)
theory Go_Os
  imports Go_Strings "HOL-Library.Word"
begin

text \<open>
  What the program uses of Go's \<open>os\<close> and \<open>path/filepath\<close>: a file system with directories,
  regular files and sockets, permission bits filtered by the umask, and the failures the
  operating system can report.

  A path is resolved lexically to the list of its components below the root (no symbolic
  links).  Failures are part of the state: \<open>fs_denied\<close> are the paths on which every operation
  is refused, \<open>fs_nospace\<close> the paths whose file can be created and truncated but not written.
  The interface \<open>file_store\<close> states what a sequence of writes promises; it is interpreted on
  this file system and used for the credential files.
\<close>

unbundle bit_operations_syntax

section \<open>Paths\<close>

fun split_slash :: "string \<Rightarrow> string list" where
  "split_slash [] = [[]]"
| "split_slash (c # cs) =
     (if c = CHR ''/'' then [] # split_slash cs
      else (case split_slash cs of [] \<Rightarrow> [[c]] | e # es \<Rightarrow> (c # e) # es))"

text \<open>The element loop of \<open>path.Clean\<close>, with the elements kept so far in reverse.\<close>

fun clean_elems :: "bool \<Rightarrow> string list \<Rightarrow> string list \<Rightarrow> string list" where
  "clean_elems rooted st [] = rev st"
| "clean_elems rooted st (e # es) =
     (if e = [] \<or> e = ''.'' then clean_elems rooted st es
      else if e = ''..'' then
        (case st of
           [] \<Rightarrow> clean_elems rooted (if rooted then [] else [e]) es
         | t # ts \<Rightarrow> clean_elems rooted (if t = ''..'' then e # st else ts) es)
      else clean_elems rooted (e # st) es)"

definition rooted :: "string \<Rightarrow> bool" where
  "rooted p \<longleftrightarrow> has_prefix p ''/''"

type_synonym path = "string list"

definition resolve :: "path \<Rightarrow> string \<Rightarrow> path" where
  "resolve cwd p = clean_elems True [] (if rooted p then split_slash p else cwd @ split_slash p)"

lemma split_slash_nonempty [simp]: "split_slash p \<noteq> []"
  by (induction p) (auto split: list.splits)

lemma split_slash_append_slash:
  "split_slash (p @ CHR ''/'' # q) = split_slash p @ split_slash q"
  by (induction p) (auto split: list.splits)

lemma clean_elems_append:
  "clean_elems True st (es @ fs) = clean_elems True (rev (clean_elems True st es)) fs"
  by (induction "True" st es rule: clean_elems.induct) (auto split: list.splits)

definition plain_name :: "string \<Rightarrow> bool" where
  "plain_name n \<longleftrightarrow> n \<noteq> [] \<and> n \<noteq> ''.'' \<and> n \<noteq> ''..'' \<and> CHR ''/'' \<notin> set n"

lemma split_slash_plain: "CHR ''/'' \<notin> set n \<Longrightarrow> split_slash n = [n]"
  by (induction n) auto

text \<open>A file name below a directory resolves to the directory's path extended by it.\<close>

lemma resolve_child:
  assumes "p \<noteq> []" and "plain_name n"
  shows "resolve cwd (p @ CHR ''/'' # n) = resolve cwd p @ [n]"
proof -
  have "split_slash (p @ CHR ''/'' # n) = split_slash p @ [n]"
    using assms(2) by (simp add: split_slash_append_slash split_slash_plain plain_name_def)
  moreover have "rooted (p @ CHR ''/'' # n) = rooted p"
    using assms(1) by (cases p) (auto simp: rooted_def has_prefix_def)
  moreover have "clean_elems True st [n] = rev st @ [n]" for st
    using assms(2) by (simp add: plain_name_def)
  ultimately show ?thesis
    by (simp add: resolve_def clean_elems_append del: clean_elems.simps flip: append_assoc)
qed

lemma resolve_child_not_root:
  assumes "plain_name n" shows "resolve cwd (p @ CHR ''/'' # n) \<noteq> []"
proof (cases "p = []")
  case True
  then show ?thesis using assms
    by (simp add: resolve_def rooted_def has_prefix_def split_slash_plain plain_name_def)
next
  case False
  then show ?thesis using resolve_child [OF False assms] by simp
qed

text \<open>\<open>path.Clean\<close> and \<open>filepath.Dir\<close>: everything up to the last slash, cleaned.\<close>

fun join_slash :: "string list \<Rightarrow> string" where
  "join_slash [] = []"
| "join_slash [e] = e"
| "join_slash (e # es) = e @ CHR ''/'' # join_slash es"

definition path_clean :: "string \<Rightarrow> string" where
  "path_clean p =
     (let es = join_slash (clean_elems (rooted p) [] (split_slash p)) in
      if rooted p then CHR ''/'' # es else if es = [] then ''.'' else es)"

definition filepath_dir :: "string \<Rightarrow> string" where
  "filepath_dir p = path_clean (rev (dropWhile (\<lambda>c. c \<noteq> CHR ''/'') (rev p)))"

text \<open>Cleaning a path does not change what it names.\<close>

definition clean_stack :: "bool \<Rightarrow> string list \<Rightarrow> bool" where
  "clean_stack rtd st \<longleftrightarrow> (\<forall>e \<in> set st. e \<noteq> [] \<and> e \<noteq> ''.'' \<and> (rtd \<longrightarrow> e \<noteq> ''..''))"

lemma clean_stack_simps [simp]:
  "clean_stack rtd []"
  "clean_stack rtd (e # st) \<longleftrightarrow> e \<noteq> [] \<and> e \<noteq> ''.'' \<and> (rtd \<longrightarrow> e \<noteq> ''..'') \<and> clean_stack rtd st"
  "clean_stack rtd (rev st) \<longleftrightarrow> clean_stack rtd st"
  by (auto simp: clean_stack_def)

lemma clean_elems_stack: "clean_stack rtd st \<Longrightarrow> clean_stack rtd (clean_elems rtd st es)"
proof (induction rtd st es rule: clean_elems.induct)
  case (1 rtd st)
  then show ?case by simp
next
  case (2 rtd st e es)
  note step = this
  consider (skip) "e = [] \<or> e = ''.''" | (up) "e = ''..''"
    | (name) "e \<noteq> []" "e \<noteq> ''.''" "e \<noteq> ''..''" by blast
  then show ?case
  proof cases
    case up
    show ?thesis
    proof (cases st)
      case Nil
      with step(2) [OF _ up Nil] up show ?thesis by (cases rtd) simp_all
    next
      case (Cons t ts)
      with step(3) [OF _ up Cons] step(5) up show ?thesis by (cases "t = ''..''") auto
    qed
  next
    case skip
    with step(1) [OF skip step(5)] show ?thesis by (elim disjE) simp_all
  next
    case name
    with step(4) [OF _ name(3)] step(5) show ?thesis by simp
  qed
qed

lemma clean_elems_set: "set (clean_elems rtd st es) \<subseteq> set st \<union> set es"
  by (induction rtd st es rule: clean_elems.induct) (auto split: list.splits if_splits)

lemma clean_elems_plain:
  "e \<noteq> [] \<Longrightarrow> e \<noteq> ''.'' \<Longrightarrow> e \<noteq> ''..'' \<Longrightarrow> clean_elems True st (es @ [e]) = clean_elems True st es @ [e]"
  by (simp add: clean_elems_append)

text \<open>Elements that were cleaned already can be cleaned again from any absolute position.\<close>

lemma clean_elems_push:
  "clean_elems True (rev (clean_elems True st0 (rev (e # st)))) es =
     clean_elems True (rev (clean_elems True st0 (rev st))) (e # es)"
  using clean_elems_append [of "rev (clean_elems True st0 (rev st))" "[e]" es]
  by (simp only: rev.simps clean_elems_append append.simps)

lemma clean_elems_again:
  assumes "clean_stack rtd st" and "rtd \<longrightarrow> st0 = []"
  shows "clean_elems True st0 (clean_elems rtd st es) =
    clean_elems True (rev (clean_elems True st0 (rev st))) es"
  using assms
proof (induction rtd st es rule: clean_elems.induct)
  case (1 rtd st)
  then show ?case by simp
next
  case (2 rtd st e es)
  let ?pos = "\<lambda>st. rev (clean_elems True st0 (rev st))"
  consider (skip) "e = [] \<or> e = ''.''" | (up) "e = ''..''"
    | (name) "e \<noteq> []" "e \<noteq> ''.''" "e \<noteq> ''..''" by blast
  then show ?case
  proof cases
    case skip
    then show ?thesis using 2(1) [OF skip] 2(5,6) by (elim disjE) simp_all
  next
    case up
    show ?thesis
    proof (cases st)
      case Nil
      then show ?thesis
        using 2(2) [OF _ up Nil] 2(5,6) up clean_elems_append [of st0 "[e]" es]
          clean_elems.simps(2) [of False "[]" e es]
        by (cases rtd) (simp_all del: clean_elems.simps(2), simp)
    next
      case (Cons t ts)
      show ?thesis
      proof (cases "t = ''..''")
        case True
        have stack: "clean_stack rtd (e # st)"
          using 2(5) True by (cases rtd) (simp_all add: up Cons)
        have ne: "\<not> (e = [] \<or> e = ''.'')" using up by simp
        have "clean_elems True st0 (clean_elems rtd (e # st) es) = clean_elems True (?pos (e # st)) es"
          using 2(3) [OF ne up Cons] 2(6) stack unfolding True if_P [OF refl] by blast
        then show ?thesis unfolding clean_elems_push using True by (simp add: up Cons)
      next
        case False
        have t: "t \<noteq> []" "t \<noteq> ''.''" "clean_stack rtd ts"
          using 2(5) by (simp_all add: Cons)
        have "?pos st = t # ?pos ts" using t(1,2) False by (simp add: Cons clean_elems_plain)
        moreover have "clean_elems rtd st (e # es) = clean_elems rtd ts es"
          using False by (simp add: up Cons)
        moreover have "clean_elems True (t # ?pos ts) (e # es) = clean_elems True (?pos ts) es"
          using False by (simp add: up)
        ultimately show ?thesis
          using 2(3) [OF _ up Cons] 2(6) t(3) False by (simp add: up)
      qed
    qed
  next
    case name
    then have "?pos (e # st) = e # ?pos st" by (simp add: clean_elems_plain)
    then show ?thesis using 2(4) [OF _ name(3)] 2(5,6) name by simp
  qed
qed

lemma split_slash_no_slash: "e \<in> set (split_slash p) \<Longrightarrow> CHR ''/'' \<notin> set e"
  by (induction p arbitrary: e) (auto split: if_splits list.splits)

lemma split_join_slash:
  "es \<noteq> [] \<Longrightarrow> \<forall>e \<in> set es. CHR ''/'' \<notin> set e \<Longrightarrow> split_slash (join_slash es) = es"
  by (induction es rule: join_slash.induct) (auto simp: split_slash_plain split_slash_append_slash)

lemma rooted_join_slash:
  "\<forall>e \<in> set es. e \<noteq> [] \<and> CHR ''/'' \<notin> set e \<Longrightarrow> \<not> rooted (join_slash es)"
  by (induction es rule: join_slash.induct)
    (auto simp: rooted_def has_prefix_def neq_Nil_conv)

lemma clean_elems_skip_empty: "clean_elems rtd st ([] # es) = clean_elems rtd st es"
  by simp

lemma resolve_path_clean: "resolve cwd (path_clean p) = resolve cwd p"
proof -
  let ?es = "clean_elems (rooted p) [] (split_slash p)"
  have stack: "clean_stack (rooted p) ?es"
    by (rule clean_elems_stack) (simp add: clean_stack_def)
  have slash: "\<forall>e \<in> set ?es. CHR ''/'' \<notin> set e"
    using clean_elems_set [of "rooted p" "[]" "split_slash p"] split_slash_no_slash by fastforce
  have split: "clean_elems True st (split_slash (join_slash ?es)) = clean_elems True st ?es" for st
    using split_join_slash [OF _ slash] by (cases "?es = []") auto
  show ?thesis
  proof (cases "rooted p")
    case True
    then have "resolve cwd (path_clean p) = clean_elems True [] ?es"
      using split by (simp add: path_clean_def resolve_def rooted_def has_prefix_def Let_def)
    also have "\<dots> = clean_elems True [] (split_slash p)"
      using clean_elems_again [of True "[]" "[]" "split_slash p"] True by (simp add: clean_stack_def)
    finally show ?thesis using True by (simp add: resolve_def)
  next
    case False
    have nr: "\<not> rooted (join_slash ?es)"
      using stack slash by (intro rooted_join_slash) (simp add: clean_stack_def)
    have "resolve cwd (path_clean p) = clean_elems True (rev (clean_elems True [] cwd)) ?es"
    proof (cases "join_slash ?es = []")
      case True
      then have "clean_elems True st ?es = rev st" for st using split [of st] by simp
      with True False show ?thesis
        by (simp add: path_clean_def resolve_def rooted_def has_prefix_def clean_elems_append Let_def)
    next
      case False
      with nr \<open>\<not> rooted p\<close> split show ?thesis
        by (simp add: path_clean_def resolve_def clean_elems_append Let_def)
    qed
    also have "\<dots> = clean_elems True (rev (clean_elems True [] cwd)) (split_slash p)"
      using clean_elems_again [of False "[]" _ "split_slash p"] False by (simp add: clean_stack_def)
    finally show ?thesis using False by (simp add: resolve_def clean_elems_append)
  qed
qed

text \<open>\<open>filepath.Join\<close> of a directory and a name.\<close>

definition filepath_join :: "string \<Rightarrow> string \<Rightarrow> string" where
  "filepath_join dir name =
     (if dir = [] then (if name = [] then [] else path_clean name)
      else path_clean (dir @ CHR ''/'' # name))"

lemma resolve_filepath_join:
  assumes "dir \<noteq> []" and "plain_name n"
  shows "resolve cwd (filepath_join dir n) = resolve cwd dir @ [n]"
  using resolve_child [OF assms] by (simp add: filepath_join_def assms(1) resolve_path_clean)

section \<open>The file system\<close>

type_synonym mode = "32 word"

datatype node = Dir mode | File string mode | Socket mode

record fs =
  fs_nodes :: "path \<Rightarrow> node option"
  fs_cwd :: path
  fs_umask :: mode
  fs_denied :: "path \<Rightarrow> bool"
  fs_nospace :: "path \<Rightarrow> bool"

abbreviation at :: "fs \<Rightarrow> string \<Rightarrow> path" where
  "at s p \<equiv> resolve (fs_cwd s) p"

abbreviation node_at :: "fs \<Rightarrow> string \<Rightarrow> node option" where
  "node_at s p \<equiv> fs_nodes s (at s p)"

definition is_dir :: "fs \<Rightarrow> path \<Rightarrow> bool" where
  "is_dir s k \<longleftrightarrow> k = [] \<or> (case fs_nodes s k of Some (Dir _) \<Rightarrow> True | _ \<Rightarrow> False)"

definition masked :: "fs \<Rightarrow> mode \<Rightarrow> mode" where
  "masked s perm = perm AND NOT (fs_umask s)"

definition set_node :: "path \<Rightarrow> node option \<Rightarrow> fs \<Rightarrow> fs" where
  "set_node k n s = s\<lparr>fs_nodes := (fs_nodes s)(k := n)\<rparr>"

lemma set_node_sel [simp]:
  "fs_nodes (set_node k n s) = (fs_nodes s)(k := n)"
  "fs_cwd (set_node k n s) = fs_cwd s" "fs_umask (set_node k n s) = fs_umask s"
  "fs_denied (set_node k n s) = fs_denied s" "fs_nospace (set_node k n s) = fs_nospace s"
  by (simp_all add: set_node_def)

definition permission_error :: error where "permission_error = Error ''permission denied''"
definition not_exist_error :: error where "not_exist_error = Error ''no such file or directory''"
definition not_dir_error :: error where "not_dir_error = Error ''not a directory''"
definition is_dir_error :: error where "is_dir_error = Error ''is a directory''"
definition no_space_error :: error where "no_space_error = Error ''no space left on device''"
definition exist_error :: error where "exist_error = Error ''file exists''"

text \<open>\<open>os.Stat\<close>, reduced to whether it succeeds.\<close>

definition stat_ok :: "fs \<Rightarrow> string \<Rightarrow> bool" where
  "stat_ok s p \<longleftrightarrow> at s p = [] \<or> node_at s p \<noteq> None"

definition read_file :: "fs \<Rightarrow> string \<Rightarrow> string result" where
  "read_file s p =
     (if fs_denied s (at s p) then Inl permission_error
      else case node_at s p of
             Some (File d _) \<Rightarrow> Inr d
           | Some (Dir _) \<Rightarrow> Inl is_dir_error
           | Some (Socket _) \<Rightarrow> Inl permission_error
           | None \<Rightarrow> Inl not_exist_error)"

text \<open>
  \<open>os.WriteFile\<close>: opens with create and truncate, so an existing file keeps its permission
  bits and the \<open>perm\<close> argument matters for a new file only.
\<close>

definition write_file :: "string \<Rightarrow> string \<Rightarrow> mode \<Rightarrow> fs \<Rightarrow> error option \<times> fs" where
  "write_file p data perm s =
     (let k = at s p in
      if k = [] then (Some is_dir_error, s)
      else if fs_denied s k then (Some permission_error, s)
      else if \<not> is_dir s (butlast k) then (Some not_exist_error, s)
      else
        let put = (\<lambda>m. if fs_nospace s k then (Some no_space_error, set_node k (Some (File [] m)) s)
                       else (None, set_node k (Some (File data m)) s))
        in case fs_nodes s k of
             Some (Dir _) \<Rightarrow> (Some is_dir_error, s)
           | Some (Socket _) \<Rightarrow> (Some not_exist_error, s)
           | Some (File _ m) \<Rightarrow> put m
           | None \<Rightarrow> put (masked s perm))"

text \<open>\<open>os.MkdirAll\<close>: the missing directories from the root downwards.\<close>

fun mkdir_from :: "path \<Rightarrow> string list \<Rightarrow> mode \<Rightarrow> fs \<Rightarrow> error option \<times> fs" where
  "mkdir_from done [] perm s = (None, s)"
| "mkdir_from done (e # es) perm s =
     (let k = done @ [e] in
      case fs_nodes s k of
        Some (Dir _) \<Rightarrow> mkdir_from k es perm s
      | Some _ \<Rightarrow> (Some not_dir_error, s)
      | None \<Rightarrow>
          if fs_denied s k then (Some permission_error, s)
          else mkdir_from k es perm (set_node k (Some (Dir (masked s perm))) s))"

definition mkdir_all :: "string \<Rightarrow> mode \<Rightarrow> fs \<Rightarrow> error option \<times> fs" where
  "mkdir_all p perm s = mkdir_from [] (at s p) perm s"

text \<open>\<open>os.Remove\<close>: a file, a socket or an empty directory.\<close>

definition dir_empty :: "fs \<Rightarrow> path \<Rightarrow> bool" where
  "dir_empty s k \<longleftrightarrow> (\<forall>e. fs_nodes s (k @ [e]) = None)"

definition not_empty_error :: error where "not_empty_error = Error ''directory not empty''"

definition remove_file :: "string \<Rightarrow> fs \<Rightarrow> error option \<times> fs" where
  "remove_file p s =
     (let k = at s p in
      if fs_denied s k then (Some permission_error, s)
      else case fs_nodes s k of
             None \<Rightarrow> (Some not_exist_error, s)
           | Some (Dir _) \<Rightarrow>
               if dir_empty s k then (None, set_node k None s) else (Some not_empty_error, s)
           | Some _ \<Rightarrow> (None, set_node k None s))"

text \<open>
  \<open>net.Listen("unix", path)\<close> binds a new socket file, and \<open>os.Chmod\<close> sets the permission
  bits of what is there (without the umask).
\<close>

definition in_use_error :: error where "in_use_error = Error ''bind: address already in use''"

definition listen_unix :: "string \<Rightarrow> fs \<Rightarrow> error option \<times> fs" where
  "listen_unix p s =
     (let k = at s p in
      if fs_denied s k then (Some permission_error, s)
      else if k = [] \<or> fs_nodes s k \<noteq> None then (Some in_use_error, s)
      else if \<not> is_dir s (butlast k) then (Some not_exist_error, s)
      else (None, set_node k (Some (Socket (masked s 511))) s))"

fun chmod_node :: "mode \<Rightarrow> node \<Rightarrow> node" where
  "chmod_node m (Dir _) = Dir m"
| "chmod_node m (File d _) = File d m"
| "chmod_node m (Socket _) = Socket m"

definition chmod :: "string \<Rightarrow> mode \<Rightarrow> fs \<Rightarrow> error option \<times> fs" where
  "chmod p m s =
     (let k = at s p in
      if fs_denied s k then (Some permission_error, s)
      else case fs_nodes s k of
             None \<Rightarrow> (Some not_exist_error, s)
           | Some n \<Rightarrow> (None, set_node k (Some (chmod_node m n)) s))"

text \<open>\<open>os.MkdirTemp\<close>: the random path it tries is supplied by the environment.\<close>

definition mkdir_temp :: "string \<Rightarrow> fs \<Rightarrow> string result \<times> fs" where
  "mkdir_temp p s =
     (let k = at s p in
      if fs_denied s k then (Inl permission_error, s)
      else if k = [] \<or> fs_nodes s k \<noteq> None then (Inl exist_error, s)
      else if \<not> is_dir s (butlast k) then (Inl not_exist_error, s)
      else (Inr p, set_node k (Some (Dir (masked s 448))) s))"

section \<open>Facts\<close>

definition content :: "fs \<Rightarrow> string \<Rightarrow> string option" where
  "content s p = (case node_at s p of Some (File d _) \<Rightarrow> Some d | _ \<Rightarrow> None)"

definition perm_of :: "fs \<Rightarrow> string \<Rightarrow> mode option" where
  "perm_of s p = (case node_at s p of Some (File _ m) \<Rightarrow> Some m | _ \<Rightarrow> None)"

lemma write_file_env [simp]:
  "fs_cwd (snd (write_file p d m s)) = fs_cwd s"
  "fs_umask (snd (write_file p d m s)) = fs_umask s"
  "fs_denied (snd (write_file p d m s)) = fs_denied s"
  "fs_nospace (snd (write_file p d m s)) = fs_nospace s"
  by (auto simp: write_file_def Let_def split: option.splits node.splits)

lemma write_file_other:
  "k \<noteq> at s p \<Longrightarrow> fs_nodes (snd (write_file p d m s)) k = fs_nodes s k"
  by (auto simp: write_file_def Let_def split: option.splits node.splits)

lemma write_file_ok:
  assumes "fst (write_file p d m s) = None"
  shows "node_at (snd (write_file p d m s)) p =
    Some (File d (case perm_of s p of Some old \<Rightarrow> old | None \<Rightarrow> masked s m))"
  using assms
  by (auto simp: write_file_def perm_of_def Let_def split: option.splits node.splits if_splits)

lemma write_file_read:
  assumes "fst (write_file p d m s) = None"
  shows "read_file (snd (write_file p d m s)) p = Inr d"
proof -
  have "\<not> fs_denied s (at s p)"
    using assms by (auto simp: write_file_def Let_def split: if_splits)
  then show ?thesis using write_file_ok [OF assms] by (simp add: read_file_def)
qed

lemma write_file_keeps_files:
  assumes "fst (write_file p d m s) = None" and "content s q \<noteq> None"
  shows "content (snd (write_file p d m s)) q \<noteq> None"
proof (cases "at s q = at s p")
  case True
  then have "content (snd (write_file p d m s)) q = Some d"
    using write_file_ok [OF assms(1)] by (simp add: content_def)
  then show ?thesis by simp
next
  case False
  then show ?thesis using assms(2) by (simp add: content_def write_file_other)
qed

lemma read_file_set_node: "at s p \<noteq> k \<Longrightarrow> read_file (set_node k n s) p = read_file s p"
  by (simp add: read_file_def)

lemma remove_file_ok:
  assumes "read_file s p = Inr d"
  shows "remove_file p s = (None, set_node (at s p) None s)"
  using assms by (auto simp: read_file_def remove_file_def Let_def split: if_splits option.splits node.splits)

lemma mkdir_from_env [simp]:
  "fs_cwd (snd (mkdir_from dn es m s)) = fs_cwd s"
  "fs_umask (snd (mkdir_from dn es m s)) = fs_umask s"
  "fs_denied (snd (mkdir_from dn es m s)) = fs_denied s"
  "fs_nospace (snd (mkdir_from dn es m s)) = fs_nospace s"
  by (induction dn es m s rule: mkdir_from.induct)
    (auto simp: Let_def split: option.splits node.splits)

text \<open>\<open>MkdirAll\<close> only ever adds directories.\<close>

lemma mkdir_from_nodes:
  "fs_nodes (snd (mkdir_from dn es m s)) k = fs_nodes s k \<or>
   fs_nodes s k = None \<and> (\<exists>p. fs_nodes (snd (mkdir_from dn es m s)) k = Some (Dir p))"
proof (induction dn es m s rule: mkdir_from.induct)
  case (2 dn e es m s)
  then show ?case
    by (auto simp: Let_def split: option.splits node.splits if_splits)
qed simp

lemma mkdir_all_content [simp]: "content (snd (mkdir_all p m s)) q = content s q"
  using mkdir_from_nodes [of "[]" "at s p" m s "at s q"]
  by (auto simp: content_def mkdir_all_def)

lemma mkdir_all_perm_of [simp]: "perm_of (snd (mkdir_all p m s)) q = perm_of s q"
  using mkdir_from_nodes [of "[]" "at s p" m s "at s q"]
  by (auto simp: perm_of_def mkdir_all_def)

lemma mkdir_all_env [simp]:
  "fs_cwd (snd (mkdir_all p m s)) = fs_cwd s" "fs_umask (snd (mkdir_all p m s)) = fs_umask s"
  "fs_denied (snd (mkdir_all p m s)) = fs_denied s"
  by (simp_all add: mkdir_all_def)

section \<open>Sequences of writes\<close>

text \<open>What the code does several times over: write files one after the other, stop at an error.\<close>

fun write_files ::
  "(string \<Rightarrow> string \<Rightarrow> mode \<Rightarrow> 's \<Rightarrow> error option \<times> 's) \<Rightarrow>
   (string \<times> string \<times> mode) list \<Rightarrow> 's \<Rightarrow> error option \<times> 's" where
  "write_files wr [] s = (None, s)"
| "write_files wr ((p, d, m) # ws) s =
     (case wr p d m s of (Some e, s') \<Rightarrow> (Some e, s') | (None, s') \<Rightarrow> write_files wr ws s')"

locale file_store =
  fixes wr :: "string \<Rightarrow> string \<Rightarrow> mode \<Rightarrow> 's \<Rightarrow> error option \<times> 's"
    and cont :: "'s \<Rightarrow> string \<Rightarrow> string option"
    and prm :: "'s \<Rightarrow> string \<Rightarrow> mode option"
    and key :: "'s \<Rightarrow> string \<Rightarrow> 'k"
    and fresh_perm :: "'s \<Rightarrow> mode \<Rightarrow> mode"
  assumes wr_key: "key (snd (wr p d m s)) q = key s q"
    and wr_fresh: "fresh_perm (snd (wr p d m s)) m' = fresh_perm s m'"
    and wr_cont: "fst (wr p d m s) = None \<Longrightarrow> cont (snd (wr p d m s)) p = Some d"
    and wr_perm: "fst (wr p d m s) = None \<Longrightarrow>
        prm (snd (wr p d m s)) p = Some (case prm s p of Some old \<Rightarrow> old | None \<Rightarrow> fresh_perm s m)"
    and wr_other: "key s q \<noteq> key s p \<Longrightarrow>
        cont (snd (wr p d m s)) q = cont s q \<and> prm (snd (wr p d m s)) q = prm s q"
begin

lemma write_files_other:
  "(\<And>p d m. (p, d, m) \<in> set ws \<Longrightarrow> key s q \<noteq> key s p) \<Longrightarrow>
     cont (snd (write_files wr ws s)) q = cont s q \<and> prm (snd (write_files wr ws s)) q = prm s q"
proof (induction ws arbitrary: s)
  case (Cons w ws)
  obtain p d m where w: "w = (p, d, m)" by (metis prod_cases3)
  let ?s = "snd (wr p d m s)"
  have 1: "cont ?s q = cont s q \<and> prm ?s q = prm s q"
    using Cons.prems [of p d m] w by (intro wr_other) simp
  have 2: "cont (snd (write_files wr ws ?s)) q = cont ?s q \<and>
      prm (snd (write_files wr ws ?s)) q = prm ?s q"
    using Cons.prems by (intro Cons.IH) (auto simp: wr_key w)
  show ?case
    using 1 2 by (cases "wr p d m s") (auto simp: w split: option.splits)
qed simp

lemma write_files_ok:
  assumes "fst (write_files wr ws s) = None" and "distinct (map (\<lambda>(p, _). key s p) ws)"
    and "(p, d, m) \<in> set ws"
  shows "cont (snd (write_files wr ws s)) p = Some d \<and>
    prm (snd (write_files wr ws s)) p = Some (case prm s p of Some old \<Rightarrow> old | None \<Rightarrow> fresh_perm s m)"
  using assms
proof (induction ws arbitrary: s)
  case (Cons w ws)
  obtain p' d' m' where w: "w = (p', d', m')" by (metis prod_cases3)
  let ?s = "snd (wr p' d' m' s)"
  have first: "fst (wr p' d' m' s) = None" and rest: "fst (write_files wr ws ?s) = None"
    and eq: "snd (write_files wr (w # ws) s) = snd (write_files wr ws ?s)"
    using Cons.prems(1) w by (auto split: prod.splits option.splits)
  have fresh: "(q, e, n) \<in> set ws \<Longrightarrow> key s p' \<noteq> key s q" for q e n
    using Cons.prems(2) w by (force simp: image_iff)
  show ?case
  proof (cases "(p, d, m) \<in> set ws")
    case True
    have "distinct (map (\<lambda>(p, _). key ?s p) ws)"
      using Cons.prems(2) by (simp add: wr_key)
    from Cons.IH [OF rest this True] wr_other [of s p p' d' m'] fresh [OF True]
    show ?thesis unfolding eq by (auto simp: wr_fresh split: option.splits)
  next
    case False
    then have "p = p'" "d = d'" "m = m'" using Cons.prems(3) w by auto
    then show ?thesis
      unfolding eq using write_files_other [of ws ?s p'] fresh wr_cont [OF first] wr_perm [OF first]
      by (fastforce simp: wr_key)
  qed
qed simp

end

interpretation files: file_store write_file content perm_of at masked
proof unfold_locales
  fix p d m s q m'
  show "at (snd (write_file p d m s)) q = at s q" by simp
  show "masked (snd (write_file p d m s)) m' = masked s m'" by (simp add: masked_def)
  show "content (snd (write_file p d m s)) p = Some d" if "fst (write_file p d m s) = None"
    using write_file_ok [OF that] by (simp add: content_def)
  show "perm_of (snd (write_file p d m s)) p =
      Some (case perm_of s p of Some old \<Rightarrow> old | None \<Rightarrow> masked s m)"
    if "fst (write_file p d m s) = None"
    using write_file_ok [OF that] by (simp add: perm_of_def)
  show "content (snd (write_file p d m s)) q = content s q \<and>
      perm_of (snd (write_file p d m s)) q = perm_of s q" if "at s q \<noteq> at s p"
    using that by (simp add: content_def perm_of_def write_file_other)
qed

end
