(* ===== verification/Go_Base64.thy ===== *)
theory Go_Base64
  imports Prelude
begin

text \<open>
  What the program uses of \<open>encoding/base64\<close>: \<open>StdEncoding.DecodeString\<close>, which skips carriage
  returns and newlines, requires the padding of the last quantum and ignores its unused bits.
  The offset that Go's error reports is not kept.  \<open>b64_encode\<close> is the encoder of the same
  package, the specification the decoder is checked against.
\<close>

section \<open>Alphabet\<close>

definition b64_value :: "char \<Rightarrow> nat option" where
  "b64_value c =
     (let n = of_char c :: nat in
      if 65 \<le> n \<and> n \<le> 90 then Some (n - 65)
      else if 97 \<le> n \<and> n \<le> 122 then Some (n - 71)
      else if 48 \<le> n \<and> n \<le> 57 then Some (n + 4)
      else if n = 43 then Some 62
      else if n = 47 then Some 63
      else None)"

definition b64_char :: "nat \<Rightarrow> char" where
  "b64_char v =
     char_of (if v < 26 then v + 65 else if v < 52 then v + 71 else if v < 62 then v - 4
              else if v = 62 then 43 else 47)"

lemma b64_value_char [simp]: "v < 64 \<Longrightarrow> b64_value (b64_char v) = Some v"
  by (auto simp: b64_value_def b64_char_def Let_def)

lemma b64_value_bound: "b64_value c = Some v \<Longrightarrow> v < 64"
  by (auto simp: b64_value_def Let_def split: if_splits)

section \<open>Quanta\<close>

definition newline_char :: "char \<Rightarrow> bool" where
  "newline_char c \<longleftrightarrow> c = CHR 0x0A \<or> c = CHR 0x0D"

definition byte :: "nat \<Rightarrow> char" where
  "byte n = char_of n"

fun b64_quanta :: "string \<Rightarrow> string option" where
  "b64_quanta [] = Some []"
| "b64_quanta (a # b # c # d # rest) =
     (if d = CHR ''='' then
        if rest \<noteq> [] then None
        else if c = CHR ''='' then
          (case (b64_value a, b64_value b) of
             (Some u, Some v) \<Rightarrow> Some [byte ((u * 64 + v) div 16)]
           | _ \<Rightarrow> None)
        else
          (case (b64_value a, b64_value b, b64_value c) of
             (Some u, Some v, Some w) \<Rightarrow>
               Some [byte ((u * 64 + v) div 16), byte (((u * 64 + v) * 64 + w) div 4)]
           | _ \<Rightarrow> None)
      else
        (case (b64_value a, b64_value b, b64_value c, b64_value d) of
           (Some u, Some v, Some w, Some x) \<Rightarrow>
             map_option
               (\<lambda>bs. byte ((u * 64 + v) div 16) # byte (((u * 64 + v) * 64 + w) div 4)
                       # byte (((u * 64 + v) * 64 + w) * 64 + x) # bs)
               (b64_quanta rest)
         | _ \<Rightarrow> None))"
| "b64_quanta _ = None"

definition b64_decode :: "string \<Rightarrow> string option" where
  "b64_decode s = b64_quanta (filter (\<lambda>c. \<not> newline_char c) s)"

fun b64_encode :: "string \<Rightarrow> string" where
  "b64_encode (x # y # z # bs) =
     (let n = (of_char x * 256 + of_char y) * 256 + of_char z :: nat in
      b64_char (n div 262144) # b64_char (n div 4096 mod 64) # b64_char (n div 64 mod 64)
        # b64_char (n mod 64) # b64_encode bs)"
| "b64_encode [x, y] =
     (let n = (of_char x * 256 + of_char y) * 4 :: nat in
      [b64_char (n div 4096), b64_char (n div 64 mod 64), b64_char (n mod 64), CHR ''=''])"
| "b64_encode [x] =
     (let n = of_char x * 16 :: nat in [b64_char (n div 64), b64_char (n mod 64), CHR ''='', CHR ''=''])"
| "b64_encode [] = []"

section \<open>Round trip\<close>

lemma of_char_bound [simp]: "(of_char c :: nat) < 256"
  using of_char_mod_256 [where 'a = nat, of c] by (metis mod_less_divisor zero_less_numeral)

lemma byte_of_char [simp]: "byte (of_char c) = c"
  by (simp add: byte_def)

lemma byte_mod: "byte (n mod 256) = byte n"
  by (simp add: byte_def char_of_mod_256)

lemma byte_offset: "byte (k * 256 + of_char c) = c"
  using byte_mod [of "k * 256 + of_char c"] by simp

lemma b64_char_pad: "v < 64 \<Longrightarrow> b64_char v \<noteq> CHR ''=''"
  using b64_value_char [of v] by (auto simp: b64_value_def)

lemma push_byte: "b < 256 \<Longrightarrow> (a * 256 + b) div 256 = (a :: nat)"
  by simp

lemma div_shift:
  "n div 4096 div 16 = n div 256 div 256" "n div 64 div 4 = n div 256" for n :: nat
  by (simp_all flip: div_mult2_eq)

lemma recombine:
  "n div 262144 * 64 + n div 4096 mod 64 = n div 4096"
  "n div 4096 * 64 + n div 64 mod 64 = n div 64" "n div 64 * 64 + n mod 64 = n" for n :: nat
proof -
  have *: "m div 64 * 64 + m mod 64 = m" for m :: nat by simp
  show "n div 64 * 64 + n mod 64 = n" by simp
  show "n div 4096 * 64 + n div 64 mod 64 = n div 64"
    using * [of "n div 64"] by (simp flip: div_mult2_eq)
  show "n div 262144 * 64 + n div 4096 mod 64 = n div 4096"
    using * [of "n div 4096"] by (simp flip: div_mult2_eq)
qed

text \<open>What the decoder finds in the number made of three, two or one bytes.\<close>

lemma three_bytes:
  fixes x y z :: char
  defines "n \<equiv> (of_char x * 256 + of_char y) * 256 + of_char z :: nat"
  shows "byte (n div 4096 div 16) = x" "byte (n div 64 div 4) = y" "byte n = z" "n div 262144 < 64"
proof -
  have n256: "n div 256 = of_char x * 256 + of_char y" "n div 256 div 256 = of_char x"
    by (simp_all only: n_def push_byte of_char_bound)
  then show "byte (n div 4096 div 16) = x" "byte (n div 64 div 4) = y"
    by (simp_all add: div_shift byte_offset)
  show "byte n = z" unfolding n_def by (rule byte_offset)
  have "n div 262144 = of_char x div 4" by (simp add: n256(2) [symmetric] flip: div_mult2_eq)
  then show "n div 262144 < 64" using of_char_bound [of x] by (simp add: less_mult_imp_div_less)
qed

lemma two_bytes:
  fixes x y :: char
  defines "n \<equiv> (of_char x * 256 + of_char y) * 4 :: nat"
  shows "byte (n div 64 div 16) = x" "byte (n div 4) = y" "n div 4096 < 64"
    "n div 4096 * 64 + n div 64 mod 64 = n div 64"
proof -
  have n4: "n div 4 = of_char x * 256 + of_char y" by (simp add: n_def)
  have "n div 64 div 16 = n div 4 div 256" by (simp flip: div_mult2_eq)
  then show "byte (n div 64 div 16) = x" "byte (n div 4) = y"
    by (simp_all add: n4 push_byte byte_offset)
  have "n div 4096 = n div 4 div 256 div 4" by (simp flip: div_mult2_eq)
  then have "n div 4096 = of_char x div 4" by (simp add: n4 push_byte)
  then show "n div 4096 < 64" using of_char_bound [of x] by (simp add: less_mult_imp_div_less)
  have "n div 64 div 64 * 64 + n div 64 mod 64 = n div 64" by (rule div_mult_mod_eq)
  then show "n div 4096 * 64 + n div 64 mod 64 = n div 64" by (simp flip: div_mult2_eq)
qed

lemma b64_quanta_encode: "b64_quanta (b64_encode s) = Some s"
proof (induction s rule: b64_encode.induct)
  case (1 x y z bs)
  let ?n = "(of_char x * 256 + of_char y) * 256 + of_char z :: nat"
  have "b64_encode (x # y # z # bs) =
      b64_char (?n div 262144) # b64_char (?n div 4096 mod 64) # b64_char (?n div 64 mod 64)
        # b64_char (?n mod 64) # b64_encode bs"
    by (simp only: b64_encode.simps Let_def)
  with three_bytes [of x y z] show ?case
    using 1 [OF refl] by (simp add: b64_char_pad recombine del: b64_encode.simps)
next
  case (2 x y)
  let ?n = "(of_char x * 256 + of_char y) * 4 :: nat"
  have "b64_encode [x, y] =
      [b64_char (?n div 4096), b64_char (?n div 64 mod 64), b64_char (?n mod 64), CHR ''='']"
    by (simp only: b64_encode.simps Let_def)
  with two_bytes [of x y] show ?case by (simp add: b64_char_pad recombine del: b64_encode.simps)
next
  case (3 x)
  define n :: nat where "n = of_char x * 16"
  have "n div 64 < 64" "n div 16 = of_char x"
    using of_char_bound [of x] by (simp_all add: n_def less_mult_imp_div_less)
  moreover have "b64_encode [x] = [b64_char (n div 64), b64_char (n mod 64), CHR ''='', CHR ''='']"
    unfolding n_def by (simp only: b64_encode.simps Let_def)
  ultimately show ?case by (simp add: recombine del: b64_encode.simps)
qed simp

text \<open>An encoded text uses the alphabet and the padding only; line breaks may be added to it.\<close>

lemma of_char_b64_char:
  "of_char (b64_char v) =
     (if v < 26 then v + 65 else if v < 52 then v + 71 else if v < 62 then v - 4
      else if v = 62 then 43 else 47)"
  by (simp add: b64_char_def of_char_of)

lemma b64_char_ascii:
  "b64_char v \<noteq> CHR 0x0A" "b64_char v \<noteq> CHR 0x0D" "b64_char v \<noteq> CHR ''-''"
proof -
  have "of_char (b64_char v) \<noteq> (10 :: nat)" "of_char (b64_char v) \<noteq> (13 :: nat)"
    "of_char (b64_char v) \<noteq> (45 :: nat)"
    by (auto simp: of_char_b64_char)
  then show "b64_char v \<noteq> CHR 0x0A" "b64_char v \<noteq> CHR 0x0D" "b64_char v \<noteq> CHR ''-''"
    by auto
qed

lemma b64_encode_chars: "c \<in> set (b64_encode s) \<Longrightarrow> c \<noteq> CHR ''-'' \<and> \<not> newline_char c"
  by (induction s rule: b64_encode.induct)
    (auto simp: Let_def newline_char_def b64_char_ascii)

lemma length_b64_encode: "length s \<le> length (b64_encode s)"
  by (induction s rule: b64_encode.induct) (auto simp: Let_def)

lemma b64_decode_encode:
  assumes "filter (\<lambda>c. \<not> newline_char c) t = b64_encode s"
  shows "b64_decode t = Some s"
  by (simp add: b64_decode_def assms b64_quanta_encode)

end
