(* ===== verification/PubSub.thy ===== *)
theory PubSub
  imports Go_Json
begin

text \<open>
  \<open>internal/pubsub/pubsub.go\<close>: the in-memory publish/subscribe broker.

  State: \<open>inMemoryPubSub\<close> is the record \<open>pubsub\<close>.  Channels are allocated on the heap
  and shared between the broker and the subscribers, so they live in the list \<open>ps_chans\<close>
  and are named by their index (\<open>chan_id\<close>).  The Go map \<open>subs\<close> is an association list
  from topics to the list of the topic's channels; Go iterates over maps in an unspecified
  order, and the list's order is one such order (\<open>publish_to_perm\<close> shows that the order
  does not matter).  Subscribe, Close and the unsubscribe closures hold the write lock, so
  they are atomic; Publish holds the read lock, so two publishes may interleave channel by
  channel.  Each of their sends is a step of its own on one channel and no call that takes
  the write lock runs between them, so every channel still sees a sequence of sends.

  Operations: \<open>new_in_memory\<close>, \<open>publish\<close>, \<open>subscribe\<close>, \<open>unsub\<close> (the closure
  \<open>Subscribe\<close> returns; its captured variables are the topic and the channel) and
  \<open>close_ps\<close>; \<open>take_msg\<close> is the receive a subscriber performs on its channel.

  Facts: the representation invariant and its preservation, what each operation does to
  the queues, and the interface \<open>pubsub_service\<close> that the HTTP server and the
  subscribers rely on, interpreted on this broker.
\<close>

section \<open>State\<close>

record message =
  msg_topic :: string
  msg_data :: "json option"
  msg_time :: int
  msg_thing :: string

type_synonym chan_id = nat

record pubsub =
  ps_subs :: "(string \<times> chan_id list) list"
  ps_closed :: bool
  ps_close_ch :: "unit chan"
  ps_chans :: "message chan list"

definition new_in_memory :: pubsub where
  "new_in_memory =
     \<lparr>ps_subs = [], ps_closed = False, ps_close_ch = make_chan 0, ps_chans = []\<rparr>"

abbreviation topic_chans :: "pubsub \<Rightarrow> string \<Rightarrow> chan_id list option" where
  "topic_chans ps \<equiv> map_of (ps_subs ps)"

definition closed_error :: error where
  "closed_error = Error ''pubsub closed''"

section \<open>Operations\<close>

text \<open>
  The loop of \<open>Publish\<close> over a topic's channels, and the one of \<open>Close\<close>: a panic leaves
  the loop with the heap reached so far.
\<close>

fun publish_to :: "message \<Rightarrow> chan_id list \<Rightarrow> message chan list \<Rightarrow> unit outcome \<times> message chan list" where
  "publish_to msg [] heap = (Returns (), heap)"
| "publish_to msg (c # cs) heap =
     (case try_send (heap ! c) msg of
        Panics m \<Rightarrow> (Panics m, heap)
      | Returns ch \<Rightarrow> publish_to msg cs (heap[c := ch]))"

fun close_all :: "chan_id list \<Rightarrow> message chan list \<Rightarrow> unit outcome \<times> message chan list" where
  "close_all [] heap = (Returns (), heap)"
| "close_all (c # cs) heap =
     (case close_chan (heap ! c) of
        Panics m \<Rightarrow> (Panics m, heap)
      | Returns ch \<Rightarrow> close_all cs (heap[c := ch]))"

definition publish :: "string \<Rightarrow> message \<Rightarrow> pubsub \<Rightarrow> error option outcome \<times> pubsub" where
  "publish topic msg ps =
     (if ps_closed ps then (Returns (Some closed_error), ps)
      else
        let m = (case topic_chans ps topic of None \<Rightarrow> [] | Some cs \<Rightarrow> cs);
            (r, heap) = publish_to msg m (ps_chans ps)
        in (case r of Panics e \<Rightarrow> Panics e | Returns _ \<Rightarrow> Returns None, ps\<lparr>ps_chans := heap\<rparr>))"

definition subscribe :: "string \<Rightarrow> pubsub \<Rightarrow> chan_id result \<times> pubsub" where
  "subscribe topic ps =
     (if ps_closed ps then (Inl closed_error, ps)
      else
        let ch = length (ps_chans ps);
            m = (case topic_chans ps topic of None \<Rightarrow> [] | Some cs \<Rightarrow> cs)
        in (Inr ch, ps\<lparr>ps_chans := ps_chans ps @ [make_chan 64],
                       ps_subs := AList.update topic (m @ [ch]) (ps_subs ps)\<rparr>))"

definition unsub :: "string \<Rightarrow> chan_id \<Rightarrow> pubsub \<Rightarrow> unit outcome \<times> pubsub" where
  "unsub topic ch ps =
     (case topic_chans ps topic of
        None \<Rightarrow> (Returns (), ps)
      | Some m \<Rightarrow>
          let m' = removeAll ch m;
              ps1 = ps\<lparr>ps_subs := AList.update topic m' (ps_subs ps)\<rparr>
          in (case close_chan (ps_chans ps ! ch) of
                Panics e \<Rightarrow> (Panics e, ps1)
              | Returns c \<Rightarrow>
                  let ps2 = ps1\<lparr>ps_chans := (ps_chans ps)[ch := c]\<rparr>
                  in (Returns (),
                      if m' = [] then ps2\<lparr>ps_subs := AList.delete topic (ps_subs ps2)\<rparr> else ps2)))"

text \<open>\<open>Close\<close>: the outer loop closes a topic's channels, then deletes the topic.\<close>

fun close_topics :: "(string \<times> chan_id list) list \<Rightarrow> pubsub \<Rightarrow> unit outcome \<times> pubsub" where
  "close_topics [] ps = (Returns (), ps)"
| "close_topics ((topic, m) # rest) ps =
     (case close_all m (ps_chans ps) of
        (Panics e, heap) \<Rightarrow> (Panics e, ps\<lparr>ps_chans := heap\<rparr>)
      | (Returns _, heap) \<Rightarrow>
          close_topics rest
            (ps\<lparr>ps_chans := heap, ps_subs := AList.delete topic (ps_subs ps)\<rparr>))"

definition close_ps :: "pubsub \<Rightarrow> unit outcome \<times> pubsub" where
  "close_ps ps =
     (if ps_closed ps then (Returns (), ps)
      else
        (case close_topics (ps_subs ps) (ps\<lparr>ps_closed := True\<rparr>) of
           (Panics e, ps') \<Rightarrow> (Panics e, ps')
         | (Returns _, ps') \<Rightarrow>
             (case close_chan (ps_close_ch ps') of
                Panics e \<Rightarrow> (Panics e, ps')
              | Returns c \<Rightarrow> (Returns (), ps'\<lparr>ps_close_ch := c\<rparr>))))"

text \<open>A subscriber's receive on its channel.\<close>

definition take_msg :: "chan_id \<Rightarrow> pubsub \<Rightarrow> message received \<times> pubsub" where
  "take_msg ch ps =
     (let (r, c) = recv (ps_chans ps ! ch) in (r, ps\<lparr>ps_chans := (ps_chans ps)[ch := c]\<rparr>))"

section \<open>Views of the state\<close>

definition queue :: "pubsub \<Rightarrow> chan_id \<Rightarrow> message list" where
  "queue ps c = (if c < length (ps_chans ps) then ch_buf (ps_chans ps ! c) else [])"

definition members :: "pubsub \<Rightarrow> string \<Rightarrow> chan_id set" where
  "members ps t = (case topic_chans ps t of None \<Rightarrow> {} | Some m \<Rightarrow> set m)"

definition chan_open :: "pubsub \<Rightarrow> chan_id \<Rightarrow> bool" where
  "chan_open ps c \<longleftrightarrow> c < length (ps_chans ps) \<and> \<not> ch_closed (ps_chans ps ! c)"

definition is_open :: "pubsub \<Rightarrow> bool" where
  "is_open ps \<longleftrightarrow> \<not> ps_closed ps"

text \<open>What a non-blocking send does to the queue of a subscriber.\<close>

definition deliver :: "message \<Rightarrow> message chan \<Rightarrow> message chan" where
  "deliver msg c = (if length (ch_buf c) < ch_cap c then c\<lparr>ch_buf := ch_buf c @ [msg]\<rparr> else c)"

lemma deliver_sel [simp]:
  "ch_cap (deliver msg c) = ch_cap c"
  "ch_closed (deliver msg c) = ch_closed c"
  "ch_buf (deliver msg c) = (if length (ch_buf c) < ch_cap c then ch_buf c @ [msg] else ch_buf c)"
  by (simp_all add: deliver_def)

lemma try_send_open: "\<not> ch_closed c \<Longrightarrow> try_send c msg = Returns (deliver msg c)"
  by (simp add: try_send_def deliver_def)

section \<open>The two loops\<close>

definition update_at :: "chan_id set \<Rightarrow> ('a \<Rightarrow> 'a) \<Rightarrow> 'a list \<Rightarrow> 'a list" where
  "update_at I f xs = map (\<lambda>i. if i \<in> I then f (xs ! i) else xs ! i) [0..<length xs]"

lemma length_update_at [simp]: "length (update_at I f xs) = length xs"
  by (simp add: update_at_def)

lemma nth_update_at [simp]:
  "i < length xs \<Longrightarrow> update_at I f xs ! i = (if i \<in> I then f (xs ! i) else xs ! i)"
  by (simp add: update_at_def)

lemma update_at_empty [simp]: "update_at {} f xs = xs"
  by (simp add: update_at_def map_nth)

lemma update_at_insert:
  "c < length xs \<Longrightarrow> c \<notin> I \<Longrightarrow> update_at I f (xs[c := f (xs ! c)]) = update_at (insert c I) f xs"
  by (rule nth_equalityI) (auto simp: nth_list_update)

lemma publish_to_open:
  assumes "distinct cs" and "\<forall>c \<in> set cs. c < length heap \<and> \<not> ch_closed (heap ! c)"
  shows "publish_to msg cs heap = (Returns (), update_at (set cs) (deliver msg) heap)"
  using assms
proof (induction cs arbitrary: heap)
  case (Cons c cs)
  then show ?case by (auto simp: try_send_open nth_list_update update_at_insert)
qed simp

definition mark_closed :: "'a chan \<Rightarrow> 'a chan" where
  "mark_closed c = c\<lparr>ch_closed := True\<rparr>"

lemma mark_closed_sel [simp]:
  "ch_buf (mark_closed c) = ch_buf c" "ch_cap (mark_closed c) = ch_cap c" "ch_closed (mark_closed c)"
  by (simp_all add: mark_closed_def)

lemma close_chan_open: "\<not> ch_closed c \<Longrightarrow> close_chan c = Returns (mark_closed c)"
  by (simp add: close_chan_def mark_closed_def)

lemma close_all_open:
  assumes "distinct cs" and "\<forall>c \<in> set cs. c < length heap \<and> \<not> ch_closed (heap ! c)"
  shows "close_all cs heap = (Returns (), update_at (set cs) mark_closed heap)"
  using assms
proof (induction cs arbitrary: heap)
  case (Cons c cs)
  let ?heap = "heap[c := mark_closed (heap ! c)]"
  from Cons.prems have "\<forall>d \<in> set cs. d < length ?heap \<and> \<not> ch_closed (?heap ! d)"
    by (auto simp: nth_list_update)
  with Cons show ?case by (simp add: close_chan_open update_at_insert)
qed simp

section \<open>Representation invariant\<close>

text \<open>
  A channel is open exactly while it is a member of a topic, of one topic only; topics are
  never empty; a closed broker has no topics and has closed its own channel.
\<close>

definition topics_ok :: "pubsub \<Rightarrow> bool" where
  "topics_ok ps \<longleftrightarrow>
     keys_distinct (ps_subs ps) \<and>
     (\<forall>t m. topic_chans ps t = Some m \<longrightarrow> m \<noteq> [] \<and> distinct m) \<and>
     (\<forall>t t' c. c \<in> members ps t \<longrightarrow> c \<in> members ps t' \<longrightarrow> t = t')"

definition chans_ok :: "pubsub \<Rightarrow> bool" where
  "chans_ok ps \<longleftrightarrow>
     (\<forall>c. chan_open ps c \<longleftrightarrow> (\<exists>t. c \<in> members ps t)) \<and>
     (\<forall>ch \<in> set (ps_chans ps). ch_cap ch = 64 \<and> length (ch_buf ch) \<le> 64)"

definition ps_inv :: "pubsub \<Rightarrow> bool" where
  "ps_inv ps \<longleftrightarrow>
     topics_ok ps \<and> chans_ok ps \<and>
     (ps_closed ps \<longrightarrow> ps_subs ps = []) \<and> ch_closed (ps_close_ch ps) = ps_closed ps"

lemmas ps_inv_defs = ps_inv_def topics_ok_def chans_ok_def
lemmas view_defs = queue_def members_def chan_open_def is_open_def

lemma new_in_memory_inv: "ps_inv new_in_memory"
  by (simp add: ps_inv_defs view_defs new_in_memory_def)

lemma ps_invD:
  assumes "ps_inv ps"
  shows inv_topic: "topic_chans ps t = Some m \<Longrightarrow> m \<noteq> [] \<and> distinct m"
    and inv_member_open: "c \<in> members ps t \<Longrightarrow> chan_open ps c"
    and inv_member_unique: "c \<in> members ps t \<Longrightarrow> c \<in> members ps t' \<Longrightarrow> t = t'"
    and inv_chan: "c < length (ps_chans ps) \<Longrightarrow>
          ch_cap (ps_chans ps ! c) = 64 \<and> length (ch_buf (ps_chans ps ! c)) \<le> 64"
    and inv_closed_empty: "ps_closed ps \<Longrightarrow> ps_subs ps = []"
  using assms by (auto simp: ps_inv_defs)

lemma closed_members: "ps_inv ps \<Longrightarrow> ps_closed ps \<Longrightarrow> members ps t = {}"
  by (simp add: members_def inv_closed_empty)

section \<open>Each operation on a well-formed broker\<close>

lemma publish_open:
  assumes "ps_inv ps" and "\<not> ps_closed ps"
  shows "publish topic msg ps =
    (Returns None, ps\<lparr>ps_chans := update_at (members ps topic) (deliver msg) (ps_chans ps)\<rparr>)"
proof (cases "topic_chans ps topic")
  case None
  with assms show ?thesis by (simp add: publish_def members_def)
next
  case (Some m)
  have "\<forall>c \<in> set m. c < length (ps_chans ps) \<and> \<not> ch_closed (ps_chans ps ! c)"
    using inv_member_open [OF assms(1), of _ topic] Some by (simp add: members_def chan_open_def)
  with inv_topic [OF assms(1) Some] Some assms(2) show ?thesis
    by (simp add: publish_def members_def publish_to_open)
qed

lemma publish_closed: "ps_closed ps \<Longrightarrow> publish topic msg ps = (Returns (Some closed_error), ps)"
  by (simp add: publish_def)

lemma subscribe_closed: "ps_closed ps \<Longrightarrow> subscribe topic ps = (Inl closed_error, ps)"
  by (simp add: subscribe_def)

lemma members_subscribe:
  "\<not> ps_closed ps \<Longrightarrow>
     members (snd (subscribe topic ps)) =
       (members ps)(topic := insert (length (ps_chans ps)) (members ps topic))"
  by (auto simp: fun_eq_iff subscribe_def members_def Let_def split: option.splits)

lemma unsub_unknown_topic: "topic_chans ps topic = None \<Longrightarrow> unsub topic c ps = (Returns (), ps)"
  by (simp add: unsub_def)

lemma members_unsub_member:
  assumes "ps_inv ps" and "c \<in> members ps topic"
  shows "fst (unsub topic c ps) = Returns ()"
    and "members (snd (unsub topic c ps)) = (members ps)(topic := members ps topic - {c})"
    and "ps_chans (snd (unsub topic c ps)) = (ps_chans ps)[c := mark_closed (ps_chans ps ! c)]"
  using assms(2) inv_member_open [OF assms]
  by (auto simp: fun_eq_iff unsub_def members_def chan_open_def close_chan_open Let_def
      split: option.splits)

text \<open>
  The closure of a channel that is no longer a member, called while its topic has other
  subscribers: the map is unchanged and \<open>close(ch)\<close> panics on the closed channel.
\<close>

lemma unsub_stale:
  assumes "ps_inv ps" and "topic_chans ps topic = Some m" and "c < length (ps_chans ps)"
    and "\<not> chan_open ps c"
  shows "fst (unsub topic c ps) = Panics ''close of closed channel''"
    and "ps_chans (snd (unsub topic c ps)) = ps_chans ps"
    and "map_of (ps_subs (snd (unsub topic c ps))) = map_of (ps_subs ps)"
proof -
  have "c \<notin> set m"
    using inv_member_open [OF assms(1), of c topic] assms(2,4) by (auto simp: members_def)
  then show "fst (unsub topic c ps) = Panics ''close of closed channel''"
    and "ps_chans (snd (unsub topic c ps)) = ps_chans ps"
    and "map_of (ps_subs (snd (unsub topic c ps))) = map_of (ps_subs ps)"
    using assms(2-4)
    by (auto simp: unsub_def chan_open_def close_chan_def Let_def fun_eq_iff)
qed

lemma members_cong: "map_of (ps_subs ps) = map_of (ps_subs ps') \<Longrightarrow> members ps = members ps'"
  by (simp add: fun_eq_iff members_def)

section \<open>Preservation of the invariant\<close>

lemma publish_inv: "ps_inv ps \<Longrightarrow> ps_inv (snd (publish topic msg ps))"
proof (cases "ps_closed ps")
  case False
  assume inv: "ps_inv ps"
  let ?ps = "snd (publish topic msg ps)"
  have ps': "?ps = ps\<lparr>ps_chans := update_at (members ps topic) (deliver msg) (ps_chans ps)\<rparr>"
    using publish_open [OF inv False] by simp
  have "\<forall>ch \<in> set (ps_chans ?ps). ch_cap ch = 64 \<and> length (ch_buf ch) \<le> 64"
    using inv_chan [OF inv] by (auto simp: ps' in_set_conv_nth)
  moreover have "chan_open ?ps = chan_open ps"
    by (auto simp: fun_eq_iff ps' chan_open_def split: if_splits)
  moreover have "members ?ps = members ps"
    by (simp add: fun_eq_iff ps' members_def)
  ultimately show ?thesis using inv by (simp add: ps_inv_defs ps')
qed (simp add: publish_closed)

lemma subscribe_inv: "ps_inv ps \<Longrightarrow> ps_inv (snd (subscribe topic ps))"
proof (cases "ps_closed ps")
  case False
  assume inv: "ps_inv ps"
  let ?ps = "snd (subscribe topic ps)" and ?new = "length (ps_chans ps)"
  have fresh: "?new \<notin> members ps t" for t
    using inv_member_open [OF inv, of ?new t] by (auto simp: chan_open_def)
  have mem: "members ?ps = (members ps)(topic := insert ?new (members ps topic))"
    using False by (rule members_subscribe)
  have "keys_distinct (ps_subs ?ps)" and cl: "\<not> ps_closed ?ps"
    and cc: "ch_closed (ps_close_ch ?ps) = ps_closed ?ps"
    using inv False by (auto simp: ps_inv_defs subscribe_def Let_def)
  moreover have "\<forall>t m. topic_chans ?ps t = Some m \<longrightarrow> m \<noteq> [] \<and> distinct m"
    using False fresh [of topic] inv_topic [OF inv]
    by (auto simp: subscribe_def Let_def members_def split: option.splits)
  moreover have "\<forall>t t' c. c \<in> members ?ps t \<longrightarrow> c \<in> members ?ps t' \<longrightarrow> t = t'"
    using fresh inv_member_unique [OF inv] by (auto simp: mem)
  ultimately have "topics_ok ?ps" by (simp add: topics_ok_def)
  moreover have "chan_open ?ps c \<longleftrightarrow> chan_open ps c \<or> c = ?new" for c
    using False by (auto simp: chan_open_def subscribe_def Let_def nth_append)
  moreover have "(\<exists>t. c \<in> members ?ps t) \<longleftrightarrow> (\<exists>t. c \<in> members ps t) \<or> c = ?new" for c
    by (auto simp: mem)
  moreover have "ps_chans ?ps = ps_chans ps @ [make_chan 64]"
    using False by (simp add: subscribe_def Let_def)
  ultimately have "topics_ok ?ps \<and> chans_ok ?ps"
    using inv by (simp add: ps_inv_def chans_ok_def)
  then show ?thesis using cl cc by (simp add: ps_inv_def)
qed (simp add: subscribe_closed)

lemma members_take [simp]: "members (snd (take_msg c ps)) = members ps"
  by (simp add: fun_eq_iff take_msg_def members_def split_beta)

lemma recv_sel:
  "ch_cap (snd (recv c)) = ch_cap c" "ch_closed (snd (recv c)) = ch_closed c"
  "ch_buf (snd (recv c)) = tl (ch_buf c)"
  by (auto simp: recv_def split: list.splits)

lemma take_msg_inv:
  assumes "ps_inv ps" shows "ps_inv (snd (take_msg c ps))"
proof -
  let ?ps = "snd (take_msg c ps)"
  have chans: "ps_chans ?ps = (ps_chans ps)[c := snd (recv (ps_chans ps ! c))]"
    and other: "ps_subs ?ps = ps_subs ps" "ps_closed ?ps = ps_closed ps"
      "ps_close_ch ?ps = ps_close_ch ps"
    by (simp_all add: take_msg_def split_beta)
  have "chan_open ?ps = chan_open ps"
    by (auto simp: fun_eq_iff chan_open_def chans nth_list_update_if recv_sel split: if_splits)
  moreover have "\<forall>ch \<in> set (ps_chans ?ps). ch_cap ch = 64 \<and> length (ch_buf ch) \<le> 64"
  proof
    fix ch assume "ch \<in> set (ps_chans ?ps)"
    then obtain i where "i < length (ps_chans ps)" "ch = ps_chans ?ps ! i"
      by (auto simp: chans in_set_conv_nth)
    then show "ch_cap ch = 64 \<and> length (ch_buf ch) \<le> 64"
      using inv_chan [OF assms, of i] by (auto simp: chans nth_list_update_if recv_sel)
  qed
  ultimately show ?thesis using assms by (simp add: ps_inv_defs other)
qed

lemma unsub_member_inv:
  assumes inv: "ps_inv ps" and c: "c \<in> members ps topic"
  shows "ps_inv (snd (unsub topic c ps))"
proof -
  let ?ps = "snd (unsub topic c ps)"
  obtain m where m: "topic_chans ps topic = Some m" "c \<in> set m"
    using c by (auto simp: members_def split: option.splits)
  note facts = members_unsub_member [OF inv c]
  have len: "c < length (ps_chans ps)" and op: "\<not> ch_closed (ps_chans ps ! c)"
    using inv_member_open [OF inv c] by (simp_all add: chan_open_def)
  have subs: "topic_chans ?ps =
      (topic_chans ps)(topic := if removeAll c m = [] then None else Some (removeAll c m))"
    and flags: "ps_closed ?ps = ps_closed ps" "ps_close_ch ?ps = ps_close_ch ps"
    and keys: "keys_distinct (ps_subs ?ps)"
    using m op inv
    by (auto simp: unsub_def Let_def close_chan_open ps_inv_def topics_ok_def fun_eq_iff
        simp del: removeAll_eq_Nil_iff)
  have "\<forall>t m. topic_chans ?ps t = Some m \<longrightarrow> m \<noteq> [] \<and> distinct m"
    using inv_topic [OF inv] m
    by (auto simp: subs distinct_removeAll simp del: removeAll_eq_Nil_iff split: if_splits)
  moreover have "\<forall>t t' d. d \<in> members ?ps t \<longrightarrow> d \<in> members ?ps t' \<longrightarrow> t = t'"
    using inv_member_unique [OF inv] by (auto simp: facts)
  ultimately have "topics_ok ?ps" using keys by (simp add: topics_ok_def)
  moreover have "chan_open ?ps d \<longleftrightarrow> chan_open ps d \<and> d \<noteq> c" for d
    by (auto simp: chan_open_def facts nth_list_update_if split: if_splits)
  moreover have "d \<in> members ?ps t \<longleftrightarrow> d \<in> members ps t \<and> d \<noteq> c" for d t
    using inv_member_unique [OF inv c] by (auto simp: facts)
  moreover have "\<forall>ch \<in> set (ps_chans ?ps). ch_cap ch = 64 \<and> length (ch_buf ch) \<le> 64"
    using inv_chan [OF inv] len by (auto simp: facts in_set_conv_nth nth_list_update)
  ultimately have "topics_ok ?ps \<and> chans_ok ?ps"
    using inv by (simp add: ps_inv_def chans_ok_def)
  moreover have "\<not> ps_closed ps"
    using m inv_closed_empty [OF inv] by auto
  ultimately show ?thesis using inv by (simp add: ps_inv_def flags)
qed

lemma ps_inv_cong:
  assumes "ps_inv ps" and "ps_chans ps' = ps_chans ps" and "map_of (ps_subs ps') = map_of (ps_subs ps)"
    and "keys_distinct (ps_subs ps')" and "ps_closed ps' = ps_closed ps"
    and "ps_close_ch ps' = ps_close_ch ps"
  shows "ps_inv ps'"
proof -
  have "members ps' = members ps" by (rule members_cong) (rule assms(3))
  moreover have "chan_open ps' = chan_open ps" by (simp add: fun_eq_iff chan_open_def assms(2))
  moreover have "ps_subs ps = [] \<Longrightarrow> ps_subs ps' = []"
    using assms(3) empty_iff_map_of by metis
  ultimately show ?thesis using assms by (simp add: ps_inv_defs)
qed

lemma unsub_inv:
  assumes inv: "ps_inv ps" and c: "c < length (ps_chans ps)"
    and own: "chan_open ps c \<Longrightarrow> c \<in> members ps topic"
  shows "ps_inv (snd (unsub topic c ps))"
proof (cases "chan_open ps c")
  case True
  with inv own show ?thesis by (blast intro: unsub_member_inv)
next
  case False
  show ?thesis
  proof (cases "topic_chans ps topic")
    case None
    with inv show ?thesis by (simp add: unsub_unknown_topic)
  next
    case (Some m)
    have "keys_distinct (ps_subs ps)" using inv by (simp add: ps_inv_defs)
    with Some have "keys_distinct (ps_subs (snd (unsub topic c ps)))"
      and "ps_closed (snd (unsub topic c ps)) = ps_closed ps"
      and "ps_close_ch (snd (unsub topic c ps)) = ps_close_ch ps"
      by (auto simp: unsub_def Let_def split: outcome.splits)
    then show ?thesis
      using ps_inv_cong [OF inv] unsub_stale [OF inv Some c False] by blast
  qed
qed

section \<open>Close\<close>

lemma update_at_Un:
  "I \<inter> J = {} \<Longrightarrow> update_at J f (update_at I f xs) = update_at (I \<union> J) f xs"
  by (rule nth_equalityI) auto

definition all_chans :: "(string \<times> chan_id list) list \<Rightarrow> chan_id list" where
  "all_chans kvs = concat (map snd kvs)"

lemma all_chans_simps [simp]:
  "all_chans [] = []" "all_chans ((t, m) # kvs) = m @ all_chans kvs"
  by (simp_all add: all_chans_def)

lemma close_topics_open:
  assumes "distinct (all_chans kvs)"
    and "\<forall>c \<in> set (all_chans kvs). c < length (ps_chans ps) \<and> \<not> ch_closed (ps_chans ps ! c)"
  shows "close_topics kvs ps =
    (Returns (),
     ps\<lparr>ps_chans := update_at (set (all_chans kvs)) mark_closed (ps_chans ps),
        ps_subs := fold AList.delete (map fst kvs) (ps_subs ps)\<rparr>)"
  using assms
proof (induction kvs arbitrary: ps)
  case (Cons p kvs)
  obtain t m where p: "p = (t, m)" by force
  let ?ps = "ps\<lparr>ps_chans := update_at (set m) mark_closed (ps_chans ps),
      ps_subs := AList.delete t (ps_subs ps)\<rparr>"
  have "close_all m (ps_chans ps) = (Returns (), update_at (set m) mark_closed (ps_chans ps))"
    using Cons.prems p by (intro close_all_open) auto
  moreover have "\<forall>c \<in> set (all_chans kvs). c < length (ps_chans ?ps) \<and> \<not> ch_closed (ps_chans ?ps ! c)"
    using Cons.prems p by auto
  moreover have "set m \<inter> set (all_chans kvs) = {}" using Cons.prems p by auto
  ultimately show ?case using Cons p by (simp add: update_at_Un)
qed simp

lemma fold_delete_all: "fold AList.delete (map fst kvs) kvs = []"
proof -
  have "map_of (fold AList.delete ks kvs) k = (if k \<in> set ks then None else map_of kvs k)" for ks k
    by (induction ks arbitrary: kvs) auto
  moreover have "k \<notin> fst ` set kvs \<Longrightarrow> map_of kvs k = None" for k
    by (simp add: map_of_eq_None_iff)
  ultimately have "map_of (fold AList.delete (map fst kvs) kvs) = Map.empty"
    by (auto simp: fun_eq_iff)
  then show ?thesis by (simp only: empty_iff_map_of)
qed

lemma set_all_chans: "set (all_chans kvs) = (\<Union>p \<in> set kvs. set (snd p))"
  by (simp add: all_chans_def)

lemma distinct_all_chans:
  assumes "keys_distinct kvs"
    and "\<And>t m. (t, m) \<in> set kvs \<Longrightarrow> distinct m"
    and "\<And>t m t' m'. (t, m) \<in> set kvs \<Longrightarrow> (t', m') \<in> set kvs \<Longrightarrow> t \<noteq> t' \<Longrightarrow> set m \<inter> set m' = {}"
  shows "distinct (all_chans kvs)"
  using assms
proof (induction kvs)
  case (Cons p kvs)
  obtain t m where p: "p = (t, m)" by force
  have "set m \<inter> set (snd q) = {}" if "q \<in> set kvs" for q
  proof -
    have "fst q \<noteq> t" using Cons.prems(1) that p by (auto simp: keys_distinct_def)
    then show ?thesis using Cons.prems(3) [of t m "fst q" "snd q"] that p by simp
  qed
  then have "set m \<inter> set (all_chans kvs) = {}" by (simp add: set_all_chans Int_UN_distrib)
  moreover have "distinct m" using Cons.prems(2) [of t m] p by simp
  moreover have "distinct (all_chans kvs)"
  proof (rule Cons.IH)
    show "keys_distinct kvs" using Cons.prems(1) by (simp add: keys_distinct_def)
    show "distinct m'" if "(t', m') \<in> set kvs" for t' m'
      using Cons.prems(2) [of t' m'] that by simp
    show "set m1 \<inter> set m2 = {}"
      if "(t1, m1) \<in> set kvs" "(t2, m2) \<in> set kvs" "t1 \<noteq> t2" for t1 m1 t2 m2
      using Cons.prems(3) [of t1 m1 t2 m2] that by simp
  qed
  ultimately show ?case using p by simp
qed simp

lemma inv_all_chans:
  assumes "ps_inv ps"
  shows "distinct (all_chans (ps_subs ps))" and "c \<in> set (all_chans (ps_subs ps)) \<longleftrightarrow> chan_open ps c"
proof -
  have keys: "keys_distinct (ps_subs ps)" using assms by (simp add: ps_inv_defs)
  have mem: "(t, m) \<in> set (ps_subs ps) \<Longrightarrow> members ps t = set m \<and> distinct m" for t m
    using set_alist_iff [OF keys] inv_topic [OF assms] by (simp add: members_def)
  show "distinct (all_chans (ps_subs ps))"
  proof (rule distinct_all_chans [OF keys])
    show "set m \<inter> set m' = {}"
      if "(t, m) \<in> set (ps_subs ps)" "(t', m') \<in> set (ps_subs ps)" "t \<noteq> t'" for t m t' m'
      using mem [OF that(1)] mem [OF that(2)] that(3) inv_member_unique [OF assms] by blast
  qed (simp add: mem)
  have "c \<in> members ps t \<longleftrightarrow> (\<exists>m. (t, m) \<in> set (ps_subs ps) \<and> c \<in> set m)" for t
    by (simp add: members_def set_alist_iff [OF keys] split: option.splits)
  then have "c \<in> set (all_chans (ps_subs ps)) \<longleftrightarrow> (\<exists>t. c \<in> members ps t)"
    by (simp add: set_all_chans Bex_def split_paired_Ex)
  then show "c \<in> set (all_chans (ps_subs ps)) \<longleftrightarrow> chan_open ps c"
    using assms by (simp add: ps_inv_def chans_ok_def)
qed

text \<open>\<open>Close\<close> on an open broker closes every subscriber's channel and keeps its backlog.\<close>

lemma close_ps_open:
  assumes "ps_inv ps" and "\<not> ps_closed ps"
  shows "close_ps ps =
    (Returns (),
     \<lparr>ps_subs = [], ps_closed = True, ps_close_ch = mark_closed (ps_close_ch ps),
      ps_chans = update_at {c. chan_open ps c} mark_closed (ps_chans ps)\<rparr>)"
proof -
  have set: "set (all_chans (ps_subs ps)) = {c. chan_open ps c}"
    using inv_all_chans(2) [OF assms(1)] by blast
  have "close_topics (ps_subs ps) (ps\<lparr>ps_closed := True\<rparr>) =
    (Returns (), ps\<lparr>ps_closed := True,
        ps_chans := update_at {c. chan_open ps c} mark_closed (ps_chans ps), ps_subs := []\<rparr>)"
    using close_topics_open [of "ps_subs ps" "ps\<lparr>ps_closed := True\<rparr>"]
      inv_all_chans(1) [OF assms(1)]
      inv_all_chans(2) [OF assms(1)]
    by (simp add: set fold_delete_all chan_open_def [symmetric])
  moreover have "\<not> ch_closed (ps_close_ch ps)" using assms by (simp add: ps_inv_def)
  ultimately show ?thesis using assms(2) by (simp add: close_ps_def close_chan_open)
qed

lemma close_ps_inv: "ps_inv ps \<Longrightarrow> ps_inv (snd (close_ps ps))"
proof (cases "ps_closed ps")
  case True
  assume "ps_inv ps" with True show ?thesis by (simp add: close_ps_def)
next
  case False
  assume inv: "ps_inv ps"
  have "\<forall>ch \<in> set (update_at {c. chan_open ps c} mark_closed (ps_chans ps)).
      ch_cap ch = 64 \<and> length (ch_buf ch) \<le> 64"
    using inv_chan [OF inv] by (auto simp: in_set_conv_nth)
  then show ?thesis
    by (auto simp: close_ps_open [OF inv False] ps_inv_defs members_def chan_open_def)
qed

lemma close_ps_returns: "ps_inv ps \<Longrightarrow> fst (close_ps ps) = Returns ()"
  by (cases "ps_closed ps") (simp_all add: close_ps_open, simp add: close_ps_def)

section \<open>The interface\<close>

text \<open>
  Go's interface \<open>PubSub\<close> with the contract its clients rely on.  \<open>mem s t\<close> are the
  subscribers of topic \<open>t\<close> and \<open>que s c\<close> the messages waiting for subscriber \<open>c\<close>.
\<close>

locale pubsub_service =
  fixes pub :: "string \<Rightarrow> message \<Rightarrow> 's \<Rightarrow> error option outcome \<times> 's"
    and sub :: "string \<Rightarrow> 's \<Rightarrow> chan_id result \<times> 's"
    and uns :: "string \<Rightarrow> chan_id \<Rightarrow> 's \<Rightarrow> unit outcome \<times> 's"
    and inv :: "'s \<Rightarrow> bool"
    and opn :: "'s \<Rightarrow> bool"
    and mem :: "'s \<Rightarrow> string \<Rightarrow> chan_id set"
    and que :: "'s \<Rightarrow> chan_id \<Rightarrow> message list"
  assumes pub_open:
      "inv s \<Longrightarrow> opn s \<Longrightarrow>
         fst (pub t m s) = Returns None \<and> inv (snd (pub t m s)) \<and> opn (snd (pub t m s)) \<and>
         mem (snd (pub t m s)) = mem s"
    and pub_queue:
      "inv s \<Longrightarrow> opn s \<Longrightarrow>
         que (snd (pub t m s)) c =
           (if c \<in> mem s t \<and> length (que s c) < 64 then que s c @ [m] else que s c)"
    and pub_closed: "inv s \<Longrightarrow> \<not> opn s \<Longrightarrow> pub t m s = (Returns (Some closed_error), s)"
    and sub_open:
      "inv s \<Longrightarrow> opn s \<Longrightarrow>
         \<exists>c. fst (sub t s) = Inr c \<and> inv (snd (sub t s)) \<and> opn (snd (sub t s)) \<and>
             (\<forall>t'. c \<notin> mem s t') \<and>
             mem (snd (sub t s)) = (mem s)(t := insert c (mem s t)) \<and>
             que s c = [] \<and> que (snd (sub t s)) = que s"
    and sub_closed: "inv s \<Longrightarrow> \<not> opn s \<Longrightarrow> sub t s = (Inl closed_error, s)"
    and uns_member:
      "inv s \<Longrightarrow> c \<in> mem s t \<Longrightarrow>
         fst (uns t c s) = Returns () \<and> inv (snd (uns t c s)) \<and> opn (snd (uns t c s)) = opn s \<and>
         mem (snd (uns t c s)) = (mem s)(t := mem s t - {c}) \<and> que (snd (uns t c s)) = que s"
    and uns_closed: "inv s \<Longrightarrow> \<not> opn s \<Longrightarrow> uns t c s = (Returns (), s)"
begin

lemma pub_total: "inv s \<Longrightarrow> \<exists>e. fst (pub t m s) = Returns e"
  using pub_open pub_closed by (cases "opn s") fastforce+

lemma pub_inv: "inv s \<Longrightarrow> inv (snd (pub t m s))"
  using pub_open pub_closed by (cases "opn s") auto

lemma sub_inv: "inv s \<Longrightarrow> inv (snd (sub t s))"
  using sub_open sub_closed by (cases "opn s") force+

lemma sub_ok_iff: "inv s \<Longrightarrow> (\<exists>c. fst (sub t s) = Inr c) \<longleftrightarrow> opn s"
  using sub_open sub_closed by (cases "opn s") force+

text \<open>A subscription, a publication on its topic: the message is waiting, alone.\<close>

lemma sub_then_pub:
  assumes "inv s" and "opn s" and "fst (sub t s) = Inr c"
  shows "que (snd (pub t m (snd (sub t s)))) c = [m]"
  using sub_open [OF assms(1,2), of t] assms(3) pub_queue by auto

end

lemma queue_publish:
  assumes "ps_inv ps" and "\<not> ps_closed ps"
  shows "queue (snd (publish t m ps)) c =
    (if c \<in> members ps t \<and> length (queue ps c) < 64 then queue ps c @ [m] else queue ps c)"
proof -
  have "c \<in> members ps t \<Longrightarrow> c < length (ps_chans ps)"
    using inv_member_open [OF assms(1)] by (auto simp: chan_open_def)
  then show ?thesis
    using inv_chan [OF assms(1), of c] by (auto simp: publish_open [OF assms] queue_def)
qed

lemma members_publish: "members (snd (publish t m ps)) = members ps"
  by (auto simp: fun_eq_iff publish_def members_def Let_def split_beta)

lemma queue_subscribe: "queue (snd (subscribe t ps)) = queue ps"
  by (auto simp: fun_eq_iff subscribe_def queue_def Let_def nth_append)

interpretation broker: pubsub_service publish subscribe unsub ps_inv is_open members queue
proof unfold_locales
  fix s t m c
  assume inv: "ps_inv s"
  show "fst (publish t m s) = Returns None \<and> ps_inv (snd (publish t m s)) \<and>
      is_open (snd (publish t m s)) \<and> members (snd (publish t m s)) = members s" if "is_open s"
    using inv that publish_open [OF inv] publish_inv [OF inv, of t m] members_publish [of t m s]
    by (simp add: is_open_def)
  show "queue (snd (publish t m s)) c =
      (if c \<in> members s t \<and> length (queue s c) < 64 then queue s c @ [m] else queue s c)"
    if "is_open s"
    using inv that by (simp add: is_open_def queue_publish)
  show "publish t m s = (Returns (Some closed_error), s)" if "\<not> is_open s"
    using that by (simp add: is_open_def publish_closed)
  show "\<exists>c. fst (subscribe t s) = Inr c \<and> ps_inv (snd (subscribe t s)) \<and>
      is_open (snd (subscribe t s)) \<and> (\<forall>t'. c \<notin> members s t') \<and>
      members (snd (subscribe t s)) = (members s)(t := insert c (members s t)) \<and>
      queue s c = [] \<and> queue (snd (subscribe t s)) = queue s" if "is_open s"
  proof (intro exI [of _ "length (ps_chans s)"] conjI allI)
    show "length (ps_chans s) \<notin> members s t'" for t'
      using inv_member_open [OF inv, of "length (ps_chans s)" t'] by (auto simp: chan_open_def)
    show "members (snd (subscribe t s)) =
        (members s)(t := insert (length (ps_chans s)) (members s t))"
      using that by (intro members_subscribe) (simp add: is_open_def)
    show "ps_inv (snd (subscribe t s))" using inv by (rule subscribe_inv)
    show "queue (snd (subscribe t s)) = queue s" by (rule queue_subscribe)
  qed (use that in \<open>simp_all add: is_open_def queue_def subscribe_def Let_def\<close>)
  show "subscribe t s = (Inl closed_error, s)" if "\<not> is_open s"
    using that by (simp add: is_open_def subscribe_closed)
  show "fst (unsub t c s) = Returns () \<and> ps_inv (snd (unsub t c s)) \<and>
      is_open (snd (unsub t c s)) = is_open s \<and>
      members (snd (unsub t c s)) = (members s)(t := members s t - {c}) \<and>
      queue (snd (unsub t c s)) = queue s" if c: "c \<in> members s t"
  proof -
    have "queue (snd (unsub t c s)) = queue s"
      by (auto simp: fun_eq_iff queue_def members_unsub_member [OF inv c] nth_list_update_if)
    moreover have "is_open (snd (unsub t c s)) = is_open s"
      by (auto simp: is_open_def unsub_def Let_def split: option.splits outcome.splits)
    ultimately show ?thesis
      using members_unsub_member [OF inv c] unsub_member_inv [OF inv c] by simp
  qed
  show "unsub t c s = (Returns (), s)" if "\<not> is_open s"
    using inv that by (simp add: is_open_def unsub_unknown_topic inv_closed_empty)
qed

section \<open>Any number of clients\<close>

text \<open>
  The calls clients can make, in any order.  A client can only call the unsubscribe closures
  it was handed and receive from the channels it was handed; \<open>hs\<close> lists them.  Nothing
  stops a client from calling a closure twice.
\<close>

datatype ps_op =
    OpPublish string message
  | OpSubscribe string
  | OpUnsub string chan_id
  | OpTake chan_id
  | OpClose

inductive broker_step ::
  "pubsub \<times> (string \<times> chan_id) list \<Rightarrow> ps_op \<Rightarrow> pubsub \<times> (string \<times> chan_id) list \<Rightarrow> bool" where
  publish: "broker_step (ps, hs) (OpPublish t m) (snd (publish t m ps), hs)"
| subscribe: "fst (subscribe t ps) = Inr c \<Longrightarrow>
    broker_step (ps, hs) (OpSubscribe t) (snd (subscribe t ps), (t, c) # hs)"
| subscribe_err: "fst (subscribe t ps) = Inl e \<Longrightarrow>
    broker_step (ps, hs) (OpSubscribe t) (snd (subscribe t ps), hs)"
| unsub: "(t, c) \<in> set hs \<Longrightarrow> broker_step (ps, hs) (OpUnsub t c) (snd (unsub t c ps), hs)"
| take: "(t, c) \<in> set hs \<Longrightarrow> broker_step (ps, hs) (OpTake c) (snd (take_msg c ps), hs)"
| close: "broker_step (ps, hs) OpClose (snd (close_ps ps), hs)"

inductive broker_reach :: "pubsub \<times> (string \<times> chan_id) list \<Rightarrow> bool" where
  start: "broker_reach (new_in_memory, [])"
| step: "broker_reach s \<Longrightarrow> broker_step s a s' \<Longrightarrow> broker_reach s'"

text \<open>A closure's channel exists, and is a member of no topic but the closure's own.\<close>

definition handed_ok :: "pubsub \<Rightarrow> (string \<times> chan_id) list \<Rightarrow> bool" where
  "handed_ok ps hs \<longleftrightarrow>
     (\<forall>(t, c) \<in> set hs. c < length (ps_chans ps) \<and> (\<forall>t'. c \<in> members ps t' \<longrightarrow> t' = t))"

lemma handed_okD:
  "handed_ok ps hs \<Longrightarrow> (t, c) \<in> set hs \<Longrightarrow> c < length (ps_chans ps)"
  "handed_ok ps hs \<Longrightarrow> (t, c) \<in> set hs \<Longrightarrow> c \<in> members ps t' \<Longrightarrow> t' = t"
  by (auto simp: handed_ok_def)

lemma handed_ok_mono:
  assumes "handed_ok ps hs" and "length (ps_chans ps) \<le> length (ps_chans ps')"
    and "\<And>t. members ps' t \<subseteq> members ps t"
  shows "handed_ok ps' hs"
  unfolding handed_ok_def
proof clarify
  fix t c assume "(t, c) \<in> set hs"
  with handed_okD [OF assms(1)] assms(2,3)
  show "c < length (ps_chans ps') \<and> (\<forall>t'. c \<in> members ps' t' \<longrightarrow> t' = t)"
    by (meson order_less_le_trans subsetD)
qed

lemma length_publish_to: "length (snd (publish_to m cs heap)) = length heap"
  by (induction m cs heap rule: publish_to.induct) (auto split: outcome.splits)

lemma handed_publish: "handed_ok ps hs \<Longrightarrow> handed_ok (snd (publish t m ps)) hs"
  by (rule handed_ok_mono)
    (auto simp: members_publish, auto simp: publish_def Let_def split_beta length_publish_to)

lemma handed_subscribe:
  assumes "ps_inv ps" and "handed_ok ps hs" and "fst (subscribe t ps) = Inr c"
  shows "handed_ok (snd (subscribe t ps)) ((t, c) # hs)"
proof -
  have op: "\<not> ps_closed ps" using assms(3) by (auto simp: subscribe_def)
  then have c: "c = length (ps_chans ps)"
    and len: "length (ps_chans (snd (subscribe t ps))) = Suc (length (ps_chans ps))"
    using assms(3) by (auto simp: subscribe_def Let_def)
  have fresh: "c \<notin> members ps t'" for t'
    using inv_member_open [OF assms(1), of c t'] by (auto simp: c chan_open_def)
  then have mem: "d \<in> members (snd (subscribe t ps)) t' \<longleftrightarrow> d \<in> members ps t' \<or> d = c \<and> t' = t" for d t'
    by (auto simp: members_subscribe [OF op] c)
  have "d \<noteq> c" if "(t', d) \<in> set hs" for t' d
    using handed_okD(1) [OF assms(2) that] by (simp add: c)
  with handed_okD [OF assms(2)] fresh show ?thesis
    by (fastforce simp: handed_ok_def mem len c intro: less_SucI)
qed

lemma handed_unsub:
  assumes inv: "ps_inv ps" and "handed_ok ps hs" and "(t, c) \<in> set hs"
  shows "handed_ok (snd (unsub t c ps)) hs"
proof (rule handed_ok_mono [OF assms(2)])
  show "length (ps_chans ps) \<le> length (ps_chans (snd (unsub t c ps)))"
    by (auto simp: unsub_def Let_def split: option.splits outcome.splits)
  show "members (snd (unsub t c ps)) t' \<subseteq> members ps t'" for t'
  proof (cases "c \<in> members ps t")
    case True
    then show ?thesis by (auto simp: members_unsub_member [OF inv])
  next
    case False
    then have "\<not> chan_open ps c"
      using handed_okD(2) [OF assms(2,3)] inv by (auto simp: ps_inv_def chans_ok_def)
    then have "members (snd (unsub t c ps)) = members ps"
    proof (cases "topic_chans ps t")
      case (Some m)
      show ?thesis
        by (rule members_cong, rule unsub_stale(3) [OF inv Some])
          (use handed_okD(1) [OF assms(2,3)] \<open>\<not> chan_open ps c\<close> in simp_all)
    qed (simp add: unsub_unknown_topic)
    then show ?thesis by simp
  qed
qed

lemma unsub_handed_inv:
  assumes "ps_inv ps" and "handed_ok ps hs" and "(t, c) \<in> set hs"
  shows "ps_inv (snd (unsub t c ps))"
proof (rule unsub_inv [OF assms(1) handed_okD(1) [OF assms(2,3)]])
  assume "chan_open ps c"
  then show "c \<in> members ps t"
    using handed_okD(2) [OF assms(2,3)] assms(1) by (auto simp: ps_inv_def chans_ok_def)
qed

lemma handed_close:
  assumes "ps_inv ps" and "handed_ok ps hs" shows "handed_ok (snd (close_ps ps)) hs"
proof (cases "ps_closed ps")
  case True
  with assms(2) show ?thesis by (simp add: close_ps_def)
next
  case False
  with assms show ?thesis
    by (intro handed_ok_mono [OF assms(2)]) (auto simp: close_ps_open members_def)
qed

lemma handed_take: "handed_ok ps hs \<Longrightarrow> handed_ok (snd (take_msg c ps)) hs"
  by (rule handed_ok_mono) (auto, simp add: take_msg_def split_beta)

lemma broker_step_inv:
  "broker_step s a s' \<Longrightarrow> ps_inv (fst s) \<and> handed_ok (fst s) (snd s) \<Longrightarrow>
     ps_inv (fst s') \<and> handed_ok (fst s') (snd s')"
proof (induction rule: broker_step.induct)
  case (subscribe_err t ps e hs)
  then have "ps_closed ps" by (auto simp: subscribe_def Let_def split: if_splits)
  with subscribe_err show ?case by (simp add: subscribe_closed)
qed (auto intro: publish_inv subscribe_inv take_msg_inv close_ps_inv unsub_handed_inv
    handed_publish handed_subscribe handed_unsub handed_close handed_take)

lemma broker_reach_inv:
  "broker_reach s \<Longrightarrow> ps_inv (fst s) \<and> handed_ok (fst s) (snd s)"
proof (induction rule: broker_reach.induct)
  case start
  show ?case by (simp add: new_in_memory_inv handed_ok_def)
next
  case (step s a s')
  from step.hyps(2) step.IH show ?case by (rule broker_step_inv)
qed

section \<open>Publishing, receiving and order\<close>

definition publish_all :: "string \<Rightarrow> message list \<Rightarrow> pubsub \<Rightarrow> pubsub" where
  "publish_all t ms ps = fold (\<lambda>m s. snd (publish t m s)) ms ps"

text \<open>A consumer that receives until the channel has nothing for it, at most \<open>n\<close> times.\<close>

fun receive_up_to :: "nat \<Rightarrow> chan_id \<Rightarrow> pubsub \<Rightarrow> message list \<times> pubsub" where
  "receive_up_to 0 c ps = ([], ps)"
| "receive_up_to (Suc n) c ps =
     (case take_msg c ps of
        (Received m, ps') \<Rightarrow> (let (ms, ps'') = receive_up_to n c ps' in (m # ms, ps''))
      | (_, ps') \<Rightarrow> ([], ps'))"

lemma publish_all_queue:
  assumes "ps_inv ps" and "is_open ps" and "c \<in> members ps t" and "length (queue ps c) \<le> 64"
  shows "ps_inv (publish_all t ms ps) \<and> queue (publish_all t ms ps) c = take 64 (queue ps c @ ms)"
  using assms
proof (induction ms arbitrary: ps)
  case (Cons m ms)
  note pub = broker.pub_open [OF Cons.prems(1,2), of t m]
    and que = broker.pub_queue [OF Cons.prems(1,2), of t m c]
  from Cons.IH [of "snd (publish t m ps)"] pub que Cons.prems(3,4)
  show ?case by (auto simp: publish_all_def not_less take_Cons')
qed (simp add: publish_all_def)

lemma receive_up_to_queue:
  "c < length (ps_chans ps) \<Longrightarrow> fst (receive_up_to n c ps) = take n (queue ps c)"
proof (induction n arbitrary: ps)
  case (Suc n)
  show ?case
  proof (cases "queue ps c")
    case Nil
    with Suc.prems show ?thesis by (simp add: queue_def take_msg_def recv_def)
  next
    case (Cons m ms)
    let ?ps = "snd (take_msg c ps)"
    have eq: "take_msg c ps = (Received m, ?ps)"
      using Cons Suc.prems by (simp add: queue_def take_msg_def recv_def)
    have "queue ?ps c = ms" and "c < length (ps_chans ?ps)"
      using Cons Suc.prems by (simp_all add: queue_def take_msg_def recv_def)
    with Suc.IH [of ?ps] show ?thesis
      by (simp add: Cons) (subst eq, simp add: split_beta)
  qed
qed simp

section \<open>Properties\<close>

text \<open>
  C7.  Whatever clients do, and in whatever order, the broker stays well formed (a channel
  is open exactly while it is a member of one topic, no topic is empty, a closed broker has
  no topics and has closed its own channel), and neither \<open>Publish\<close> nor \<open>Close\<close> ever panics:
  no message is sent on a closed channel and no channel is closed twice by \<open>Close\<close>.
\<close>

theorem broker_safety:
  assumes "broker_reach (ps, hs)"
  shows "ps_inv ps \<and> \<not> panics (fst (publish t m ps)) \<and> \<not> panics (fst (close_ps ps))"
  using broker_reach_inv [OF assms] broker.pub_total [of ps t m] close_ps_returns [of ps]
  by (auto simp: outcome_simps)

definition demo_msg :: message where
  "demo_msg = \<lparr>msg_topic = ''ping'', msg_data = Some (JInt 1), msg_time = 0, msg_thing = ''dev''\<rparr>"

text \<open>A run in which two clients subscribe to one topic and the first unsubscribes.\<close>

definition demo_ps2 :: pubsub where
  "demo_ps2 = snd (subscribe ''ping'' (snd (subscribe ''ping'' new_in_memory)))"

definition demo_ps3 :: pubsub where
  "demo_ps3 = snd (unsub ''ping'' 0 demo_ps2)"

lemma demo_reach2: "broker_reach (demo_ps2, [(''ping'', 1), (''ping'', 0)])"
proof -
  have "fst (subscribe ''ping'' new_in_memory) = Inr 0"
    and "fst (subscribe ''ping'' (snd (subscribe ''ping'' new_in_memory))) = Inr 1"
    by (simp_all add: subscribe_def new_in_memory_def)
  then show ?thesis
    unfolding demo_ps2_def by (intro broker_reach.step [OF broker_reach.step [OF broker_reach.start]])
      (auto intro: broker_step.subscribe)
qed

lemma demo_reach3: "broker_reach (demo_ps3, [(''ping'', 1), (''ping'', 0)])"
  unfolding demo_ps3_def by (rule broker_reach.step [OF demo_reach2], rule broker_step.unsub) simp

theorem broker_safety_witness:
  "ps_inv demo_ps3 \<and> \<not> panics (fst (publish ''ping'' demo_msg demo_ps3)) \<and>
   \<not> panics (fst (close_ps demo_ps3))"
  by (rule broker_safety [OF demo_reach3])

text \<open>
  C19.  An unsubscribe closure returned by \<open>Subscribe\<close> panics (\<open>close of closed channel\<close>)
  exactly when its channel is already closed and the topic has other subscribers: calling
  a closure twice is harmless only while nobody else listens to the topic.
\<close>

theorem unsub_panics_iff:
  assumes "broker_reach (ps, hs)" and "(t, c) \<in> set hs"
  shows "panics (fst (unsub t c ps)) \<longleftrightarrow> members ps t \<noteq> {} \<and> \<not> chan_open ps c"
proof -
  from broker_reach_inv [OF assms(1)] have inv: "ps_inv ps" and h: "handed_ok ps hs" by simp_all
  show ?thesis
  proof (cases "chan_open ps c")
    case True
    then have "c \<in> members ps t"
      using handed_okD(2) [OF h assms(2)] inv by (auto simp: ps_inv_def chans_ok_def)
    with True show ?thesis by (simp add: members_unsub_member [OF inv])
  next
    case False
    then show ?thesis
      using unsub_stale(1) [OF inv _ handed_okD(1) [OF h assms(2)]] inv_topic [OF inv]
      by (cases "topic_chans ps t") (auto simp: unsub_unknown_topic members_def)
  qed
qed

theorem unsub_panics_iff_witness:
  "panics (fst (unsub ''ping'' 0 demo_ps3)) \<and> \<not> panics (fst (unsub ''ping'' 0 demo_ps2))"
  using unsub_panics_iff [OF demo_reach3, of "''ping''" 0] unsub_panics_iff [OF demo_reach2, of "''ping''" 0]
  by (simp add: members_def chan_open_def demo_ps3_def demo_ps2_def subscribe_def unsub_def
      new_in_memory_def close_chan_def)

text \<open>
  Publishing on an open broker appends the message to the backlog of every subscriber of
  the topic whose backlog is below the channel capacity of 64, drops it for the topic's other
  subscribers, leaves every other subscriber alone and changes no membership.
\<close>

theorem publish_delivers:
  assumes "broker_reach (ps, hs)" and "\<not> ps_closed ps"
  shows "fst (publish t m ps) = Returns None \<and>
    members (snd (publish t m ps)) = members ps \<and>
    (\<forall>c. queue (snd (publish t m ps)) c =
         (if c \<in> members ps t \<and> length (queue ps c) < 64 then queue ps c @ [m] else queue ps c))"
proof -
  have inv: "ps_inv ps" using broker_reach_inv [OF assms(1)] by simp
  have op: "is_open ps" using assms(2) by (simp add: is_open_def)
  show ?thesis using broker.pub_open [OF inv op] broker.pub_queue [OF inv op] by simp
qed

theorem publish_delivers_witness:
  "queue (snd (publish ''ping'' demo_msg demo_ps3)) 1 = [demo_msg] \<and>
   queue (snd (publish ''ping'' demo_msg demo_ps3)) 0 = []"
proof -
  have op: "\<not> ps_closed demo_ps3"
    by (simp add: demo_ps3_def demo_ps2_def subscribe_def unsub_def new_in_memory_def close_chan_def)
  have "1 \<in> members demo_ps3 ''ping''" "0 \<notin> members demo_ps3 ''ping''"
    "queue demo_ps3 0 = []" "queue demo_ps3 1 = []"
    by (simp_all add: members_def queue_def demo_ps3_def demo_ps2_def subscribe_def unsub_def
        new_in_memory_def close_chan_def)
  with publish_delivers [OF demo_reach3 op, of "''ping''" demo_msg] show ?thesis by simp
qed

text \<open>
  C20.  Go iterates over the subscriber map in an unspecified order: every order in which
  \<open>Publish\<close> can visit a topic's channels gives the same result and the same channels.
\<close>

theorem publish_to_perm:
  assumes "distinct cs" and "\<forall>c \<in> set cs. c < length heap \<and> \<not> ch_closed (heap ! c)"
    and "distinct cs'" and "set cs' = set cs"
  shows "publish_to msg cs' heap = publish_to msg cs heap"
  using assms by (simp add: publish_to_open)

theorem publish_to_perm_witness:
  "publish_to demo_msg [1, 0] [make_chan 64, make_chan 64] =
   publish_to demo_msg [0, 1] [make_chan 64, make_chan 64]"
  by (rule publish_to_perm) auto

text \<open>
  C21.  A fresh subscription, any number of messages published on its topic, then receives:
  the subscriber gets the first 64 messages, in the order of publication, and no other.
\<close>

theorem subscribe_publish_receive:
  assumes "broker_reach (ps, hs)" and "fst (subscribe t ps) = Inr c"
  shows "fst (receive_up_to n c (publish_all t ms (snd (subscribe t ps)))) = take n (take 64 ms)"
proof -
  have inv: "ps_inv ps" using broker_reach_inv [OF assms(1)] by simp
  let ?ps = "snd (subscribe t ps)" and ?ps' = "publish_all t ms (snd (subscribe t ps))"
  have op: "is_open ps" using assms(2) broker.sub_ok_iff [OF inv] by blast
  from broker.sub_open [OF inv op, of t] assms(2)
  have s: "ps_inv ?ps" "is_open ?ps" "c \<in> members ?ps t" "queue ?ps c = []" by auto
  note pub = publish_all_queue [OF s(1-3), of ms]
  show ?thesis
  proof (cases "c < length (ps_chans ?ps')")
    case True
    with pub s(4) show ?thesis by (simp add: receive_up_to_queue)
  next
    case False
    have "length (ps_chans (publish_all t ms ps')) = length (ps_chans ps')" for ps'
      unfolding publish_all_def
      by (induction ms arbitrary: ps') (simp_all add: publish_def Let_def split_beta length_publish_to)
    with False inv_member_open [OF s(1,3)] show ?thesis by (simp add: chan_open_def)
  qed
qed

theorem subscribe_publish_receive_witness:
  "fst (receive_up_to 5 0 (publish_all ''ping'' [demo_msg, demo_msg]
      (snd (subscribe ''ping'' new_in_memory)))) = [demo_msg, demo_msg]"
  using subscribe_publish_receive [OF broker_reach.start, of "''ping''" 0 5 "[demo_msg, demo_msg]"]
  by (simp add: subscribe_def new_in_memory_def)

text \<open>
  C22.  \<open>Close\<close> closes every subscriber's channel without losing the messages already queued;
  from then on \<open>Publish\<close> and \<open>Subscribe\<close> fail with \<open>pubsub closed\<close>, and \<open>Close\<close> and every
  unsubscribe closure do nothing.
\<close>

theorem close_shuts_down:
  assumes "broker_reach (ps, hs)"
  defines "ps' \<equiv> snd (close_ps ps)"
  shows "(\<forall>c. \<not> chan_open ps' c \<and> queue ps' c = queue ps c) \<and>
    publish t m ps' = (Returns (Some closed_error), ps') \<and>
    subscribe t ps' = (Inl closed_error, ps') \<and>
    unsub t c ps' = (Returns (), ps') \<and>
    close_ps ps' = (Returns (), ps')"
proof -
  have inv: "ps_inv ps" using broker_reach_inv [OF assms(1)] by simp
  have inv': "ps_inv ps'" unfolding ps'_def using inv by (rule close_ps_inv)
  have cl: "ps_closed ps'"
    unfolding ps'_def using close_ps_open [OF inv] by (cases "ps_closed ps") (auto simp: close_ps_def)
  have "\<not> chan_open ps' c" for c
    using inv' closed_members [OF inv' cl] by (simp add: ps_inv_def chans_ok_def)
  moreover have "queue ps' c = queue ps c" for c
    unfolding ps'_def using close_ps_open [OF inv]
    by (cases "ps_closed ps") (auto simp: close_ps_def queue_def)
  moreover have "close_ps ps' = (Returns (), ps')" using cl by (simp add: close_ps_def)
  moreover have "unsub t c ps' = (Returns (), ps')"
    using broker.uns_closed [OF inv'] cl by (simp add: is_open_def)
  ultimately show ?thesis using cl by (simp add: publish_closed subscribe_closed)
qed

theorem close_shuts_down_witness:
  "queue (snd (close_ps (snd (publish ''ping'' demo_msg demo_ps3)))) 1 = [demo_msg]"
proof -
  have r: "broker_reach (snd (publish ''ping'' demo_msg demo_ps3), [(''ping'', 1), (''ping'', 0)])"
    by (rule broker_reach.step [OF demo_reach3]) (rule broker_step.publish)
  have "queue (snd (publish ''ping'' demo_msg demo_ps3)) 1 = [demo_msg]"
    by (simp add: queue_def publish_def demo_ps3_def demo_ps2_def subscribe_def unsub_def
        new_in_memory_def close_chan_def try_send_def make_chan_def)
  then show ?thesis using close_shuts_down [OF r, of "''ping''" demo_msg 1] by simp
qed

end
