(* ===== verification/PubSub_Spec.thy ===== *)
theory PubSub_Spec
  imports PubSub
begin

text \<open>
  The abstract specification of the broker (\<open>internal/pubsub/pubsub.go\<close>) and its refinement.

  A post office is a list of mailboxes, one per subscription ever made.  A mailbox knows the
  topic it is subscribed to, \<open>None\<close> once it is closed, and its backlog.  There are no channels,
  no map of topics to sets of channels and no panics: publishing visits every mailbox.

  \<open>office\<close> abstracts a broker; \<open>broker_run_office\<close> says that a broker after any sequence of
  calls is the post office after the same sequence.
\<close>

section \<open>The specification\<close>

record mailbox =
  mb_topic :: "string option"
  mb_backlog :: "message list"

record post_office =
  po_open :: bool
  po_boxes :: "mailbox list"

definition empty_office :: post_office where
  "empty_office = \<lparr>po_open = True, po_boxes = []\<rparr>"

definition deposit :: "string \<Rightarrow> message \<Rightarrow> mailbox \<Rightarrow> mailbox" where
  "deposit t m b =
     (if mb_topic b = Some t \<and> length (mb_backlog b) < 64 then b\<lparr>mb_backlog := mb_backlog b @ [m]\<rparr>
      else b)"

definition shut :: "mailbox \<Rightarrow> mailbox" where
  "shut b = b\<lparr>mb_topic := None\<rparr>"

fun po_step :: "ps_op \<Rightarrow> post_office \<Rightarrow> post_office" where
  "po_step (OpPublish t m) p =
     (if po_open p then p\<lparr>po_boxes := map (deposit t m) (po_boxes p)\<rparr> else p)"
| "po_step (OpSubscribe t) p =
     (if po_open p then p\<lparr>po_boxes := po_boxes p @ [\<lparr>mb_topic = Some t, mb_backlog = []\<rparr>]\<rparr> else p)"
| "po_step (OpUnsub t c) p = p\<lparr>po_boxes := (po_boxes p)[c := shut (po_boxes p ! c)]\<rparr>"
| "po_step (OpTake c) p =
     p\<lparr>po_boxes := (po_boxes p)[c := (po_boxes p ! c)\<lparr>mb_backlog := tl (mb_backlog (po_boxes p ! c))\<rparr>]\<rparr>"
| "po_step OpClose p = \<lparr>po_open = False, po_boxes = map shut (po_boxes p)\<rparr>"

text \<open>What a receive on a mailbox gives.\<close>

definition po_receive :: "chan_id \<Rightarrow> post_office \<Rightarrow> message received" where
  "po_receive c p =
     (case mb_backlog (po_boxes p ! c) of
        m # _ \<Rightarrow> Received m
      | [] \<Rightarrow> if mb_topic (po_boxes p ! c) = None then Drained else Blocks)"

section \<open>The abstraction\<close>

definition topic_of :: "pubsub \<Rightarrow> chan_id \<Rightarrow> string option" where
  "topic_of ps c = map_option fst (List.find (\<lambda>(t, m). c \<in> set m) (ps_subs ps))"

definition office :: "pubsub \<Rightarrow> post_office" where
  "office ps =
     \<lparr>po_open = \<not> ps_closed ps,
      po_boxes = map (\<lambda>c. \<lparr>mb_topic = topic_of ps c, mb_backlog = queue ps c\<rparr>) [0..<length (ps_chans ps)]\<rparr>"

lemma office_sel [simp]:
  "po_open (office ps) \<longleftrightarrow> is_open ps"
  "length (po_boxes (office ps)) = length (ps_chans ps)"
  "c < length (ps_chans ps) \<Longrightarrow>
     po_boxes (office ps) ! c = \<lparr>mb_topic = topic_of ps c, mb_backlog = queue ps c\<rparr>"
  by (simp_all add: office_def is_open_def)

lemma find_topicD:
  "List.find (\<lambda>(t, m). c \<in> set m) kvs = Some p \<Longrightarrow> p \<in> set kvs \<and> c \<in> set (snd p)"
  by (induction kvs) (auto split: if_splits)

lemma topic_ofD: "topic_of ps c = Some t \<Longrightarrow> \<exists>m. (t, m) \<in> set (ps_subs ps) \<and> c \<in> set m"
  using find_topicD [of c "ps_subs ps"] by (force simp: topic_of_def)

lemma topic_of_iff:
  assumes "ps_inv ps" shows "topic_of ps c = Some t \<longleftrightarrow> c \<in> members ps t"
proof
  assume "topic_of ps c = Some t"
  then obtain m where "(t, m) \<in> set (ps_subs ps)" "c \<in> set m" using topic_ofD by blast
  moreover have "keys_distinct (ps_subs ps)" using assms by (simp add: ps_inv_defs)
  ultimately show "c \<in> members ps t" by (auto simp: members_def set_alist_iff)
next
  assume c: "c \<in> members ps t"
  then have "\<exists>m. (t, m) \<in> set (ps_subs ps) \<and> c \<in> set m"
    by (auto simp: members_def dest: map_of_SomeD split: option.splits)
  then have "topic_of ps c \<noteq> None" by (auto simp: topic_of_def find_None_iff)
  then obtain t' where t': "topic_of ps c = Some t'" by blast
  then obtain m where "(t', m) \<in> set (ps_subs ps)" "c \<in> set m" using topic_ofD by blast
  moreover have "keys_distinct (ps_subs ps)" using assms by (simp add: ps_inv_defs)
  ultimately have "c \<in> members ps t'" by (auto simp: members_def set_alist_iff)
  with c inv_member_unique [OF assms] t' show "topic_of ps c = Some t" by blast
qed

text \<open>Two abstractions agree when the brokers do, mailbox by mailbox.\<close>

lemma office_eqI:
  assumes "po_open p = is_open ps" and "length (po_boxes p) = length (ps_chans ps)"
    and "\<And>c t. c < length (ps_chans ps) \<Longrightarrow> mb_topic (po_boxes p ! c) = Some t \<longleftrightarrow> c \<in> members ps t"
    and "\<And>c. c < length (ps_chans ps) \<Longrightarrow> mb_backlog (po_boxes p ! c) = queue ps c"
    and "ps_inv ps"
  shows "office ps = p"
proof -
  have "mb_topic (po_boxes p ! c) = topic_of ps c" if "c < length (ps_chans ps)" for c
    using assms(3) [OF that] topic_of_iff [OF assms(5), of c] by (metis not_None_eq)
  then have "po_boxes (office ps) ! c = po_boxes p ! c" if "c < length (ps_chans ps)" for c
    using that assms(4) by simp
  then have "po_boxes (office ps) = po_boxes p"
    using assms(2) by (intro nth_equalityI) simp_all
  then show ?thesis using assms(1) by (intro post_office.equality) simp_all
qed

lemma mb_topic_office:
  "ps_inv ps \<Longrightarrow> c < length (ps_chans ps) \<Longrightarrow>
     mb_topic (po_boxes (office ps) ! c) = Some t \<longleftrightarrow> c \<in> members ps t"
  by (simp add: topic_of_iff)

section \<open>Simulation\<close>

lemma publish_office:
  assumes inv: "ps_inv ps"
  shows "office (snd (publish t m ps)) = po_step (OpPublish t m) (office ps)"
proof (cases "is_open ps")
  case True
  then have op: "\<not> ps_closed ps" by (simp add: is_open_def)
  have len: "length (ps_chans (snd (publish t m ps))) = length (ps_chans ps)"
    by (simp add: publish_open [OF inv op])
  have op': "is_open (snd (publish t m ps))" by (simp add: publish_open [OF inv op] is_open_def op)
  show ?thesis
    by (rule office_eqI)
      (use True op op' len publish_inv [OF inv] topic_of_iff [OF inv] in
        \<open>simp_all add: deposit_def members_publish queue_publish [OF inv op]\<close>)
next
  case False
  then show ?thesis by (simp add: publish_closed is_open_def)
qed

lemma subscribe_office:
  assumes inv: "ps_inv ps"
  shows "office (snd (subscribe t ps)) = po_step (OpSubscribe t) (office ps)"
proof (cases "is_open ps")
  case True
  then have op: "\<not> ps_closed ps" by (simp add: is_open_def)
  let ?n = "length (ps_chans ps)"
  have len: "length (ps_chans (snd (subscribe t ps))) = Suc ?n"
    by (simp add: subscribe_def op Let_def)
  have op': "is_open (snd (subscribe t ps))" by (simp add: subscribe_def is_open_def op Let_def)
  have fresh: "?n \<notin> members ps t'" for t'
    using inv_member_open [OF inv, of ?n t'] by (auto simp: chan_open_def)
  have empty: "queue ps ?n = []" by (simp add: queue_def)
  show ?thesis
    by (rule office_eqI)
      (use True op op' len fresh empty subscribe_inv [OF inv] topic_of_iff [OF inv] in
        \<open>auto simp: nth_append members_subscribe queue_subscribe less_Suc_eq\<close>)
next
  case False
  then show ?thesis by (simp add: subscribe_closed is_open_def)
qed

lemma unsub_office:
  assumes inv: "ps_inv ps" and h: "handed_ok ps hs" "(t, c) \<in> set hs"
  shows "office (snd (unsub t c ps)) = po_step (OpUnsub t c) (office ps)"
proof -
  have c: "c < length (ps_chans ps)" using handed_okD(1) [OF h] .
  have other: "c \<in> members ps t' \<Longrightarrow> t' = t" for t' using handed_okD(2) [OF h] .
  have inv': "ps_inv (snd (unsub t c ps))" using inv h by (rule unsub_handed_inv)
  have op': "is_open (snd (unsub t c ps)) = is_open ps"
    by (auto simp: is_open_def unsub_def Let_def split: option.splits outcome.splits)
  have len: "length (ps_chans (snd (unsub t c ps))) = length (ps_chans ps)"
    by (auto simp: unsub_def Let_def split: option.splits outcome.splits)
  have mem: "members (snd (unsub t c ps)) t' = members ps t' - {c}" for t'
  proof (cases "c \<in> members ps t")
    case True
    have "c \<notin> members ps t'" if "t' \<noteq> t" using other that by blast
    then show ?thesis using members_unsub_member(2) [OF inv True] by simp
  next
    case False
    then have closed: "\<not> chan_open ps c" using other inv by (auto simp: ps_inv_def chans_ok_def)
    have "members (snd (unsub t c ps)) = members ps"
    proof (cases "topic_chans ps t")
      case (Some m)
      show ?thesis by (rule members_cong, rule unsub_stale(3) [OF inv Some c closed])
    qed (simp add: unsub_unknown_topic)
    with False other show ?thesis by auto
  qed
  have que: "queue (snd (unsub t c ps)) d = queue ps d" for d
    by (auto simp: queue_def unsub_def close_chan_def Let_def nth_list_update_if
        split: option.splits outcome.splits)
  show ?thesis
    by (rule office_eqI)
      (use c inv' op' len mem que topic_of_iff [OF inv] in \<open>auto simp: nth_list_update_if shut_def\<close>)
qed

lemma take_office:
  assumes inv: "ps_inv ps" and c: "c < length (ps_chans ps)"
  shows "office (snd (take_msg c ps)) = po_step (OpTake c) (office ps)"
proof -
  have que: "queue (snd (take_msg c ps)) d = (if d = c then tl (queue ps c) else queue ps d)" for d
    using c by (auto simp: queue_def take_msg_def recv_def Let_def split_beta nth_list_update_if
        split: list.splits)
  have len: "length (ps_chans (snd (take_msg c ps))) = length (ps_chans ps)"
    by (simp add: take_msg_def split_beta)
  have op': "is_open (snd (take_msg c ps)) = is_open ps" by (simp add: take_msg_def split_beta is_open_def)
  show ?thesis
    by (rule office_eqI)
      (use c op' len que take_msg_inv [OF inv] topic_of_iff [OF inv] in \<open>auto simp: nth_list_update_if\<close>)
qed

lemma close_office:
  assumes inv: "ps_inv ps"
  shows "office (snd (close_ps ps)) = po_step OpClose (office ps)"
proof -
  let ?ps = "snd (close_ps ps)"
  have inv': "ps_inv ?ps" using inv by (rule close_ps_inv)
  have cl: "ps_closed ?ps" and len: "length (ps_chans ?ps) = length (ps_chans ps)"
    and que: "queue ?ps = queue ps"
    using close_ps_open [OF inv] by (cases "ps_closed ps"; force simp: close_ps_def queue_def)+
  show ?thesis
    by (rule office_eqI)
      (use cl len que inv' closed_members [OF inv' cl] in \<open>simp_all add: is_open_def shut_def\<close>)
qed

lemma receive_office:
  assumes inv: "ps_inv ps" and c: "c < length (ps_chans ps)"
  shows "fst (take_msg c ps) = po_receive c (office ps)"
proof -
  have "chan_open ps c \<longleftrightarrow> (\<exists>t. c \<in> members ps t)"
    using inv unfolding ps_inv_def chans_ok_def by blast
  then have "\<not> ch_closed (ps_chans ps ! c) \<longleftrightarrow> (\<exists>t. topic_of ps c = Some t)"
    using c by (simp add: chan_open_def topic_of_iff [OF inv])
  then have "ch_closed (ps_chans ps ! c) \<longleftrightarrow> topic_of ps c = None" by auto
  then show ?thesis
    using c by (auto simp: take_msg_def recv_def po_receive_def queue_def split_beta split: list.split)
qed

section \<open>Runs\<close>

inductive broker_run ::
  "pubsub \<times> (string \<times> chan_id) list \<Rightarrow> ps_op list \<Rightarrow> pubsub \<times> (string \<times> chan_id) list \<Rightarrow> bool" where
  none: "broker_run s [] s"
| call: "broker_run s as s' \<Longrightarrow> broker_step s' a s'' \<Longrightarrow> broker_run s (as @ [a]) s''"

lemma broker_step_office:
  assumes "broker_step s a s'" and "ps_inv (fst s)" and "handed_ok (fst s) (snd s)"
  shows "office (fst s') = po_step a (office (fst s))"
  using assms
proof cases
  case (take t c hs ps)
  then show ?thesis using assms take_office handed_okD(1) by force
qed (use assms in \<open>auto simp: publish_office subscribe_office close_office dest: unsub_office\<close>)

lemma broker_run_reach: "broker_run s as s' \<Longrightarrow> broker_reach s \<Longrightarrow> broker_reach s'"
  by (induction rule: broker_run.induct) (auto intro: broker_reach.step)

lemma broker_run_office:
  "broker_run s as s' \<Longrightarrow> broker_reach s \<Longrightarrow> office (fst s') = fold po_step as (office (fst s))"
proof (induction rule: broker_run.induct)
  case (call s as s' a s'')
  from broker_run_reach [OF call.hyps(1) call.prems] broker_reach_inv
  have "ps_inv (fst s')" "handed_ok (fst s') (snd s')" by simp_all
  from broker_step_office [OF call.hyps(2) this] call show ?case by simp
qed simp

section \<open>Properties\<close>

text \<open>
  C10.  The broker is a post office: after any sequence of calls that clients can make, in any
  order, it stands for the post office after the same sequence, and every answer it gives next
  (to \<open>Publish\<close>, to \<open>Subscribe\<close>, to a receive on a channel that was handed out) is the post
  office's.  In particular \<open>Publish\<close> appends to the backlogs of the topic's subscribers that
  have room and to no other, and a closed mailbox can still be emptied.
\<close>

theorem broker_refines_post_office:
  assumes "broker_run (new_in_memory, []) as (ps, hs)"
  defines "p \<equiv> fold po_step as empty_office"
  shows "office ps = p \<and>
    fst (publish t m ps) = Returns (if po_open p then None else Some closed_error) \<and>
    fst (subscribe t ps) = (if po_open p then Inr (length (po_boxes p)) else Inl closed_error) \<and>
    (\<forall>(t', c) \<in> set hs. fst (take_msg c ps) = po_receive c p)"
proof -
  have "office new_in_memory = empty_office"
    by (simp add: office_def new_in_memory_def empty_office_def)
  with broker_run_office [OF assms(1) broker_reach.start] have p: "office ps = p"
    by (simp add: p_def)
  from broker_run_reach [OF assms(1) broker_reach.start] broker_reach_inv
  have inv: "ps_inv ps" and h: "handed_ok ps hs" by force+
  have "fst (publish t m ps) = Returns (if is_open ps then None else Some closed_error)"
    using broker.pub_open [OF inv] broker.pub_closed [OF inv] by simp
  moreover have "fst (subscribe t ps) = (if is_open ps then Inr (length (ps_chans ps)) else Inl closed_error)"
    by (simp add: subscribe_def is_open_def Let_def)
  moreover have "\<forall>(t', c) \<in> set hs. fst (take_msg c ps) = po_receive c (office ps)"
    using receive_office [OF inv] handed_okD(1) [OF h] by blast
  ultimately show ?thesis using p office_sel(1,2) [of ps] by simp
qed

theorem broker_refines_post_office_witness:
  "office (snd (publish ''ping'' demo_msg demo_ps2)) =
     \<lparr>po_open = True, po_boxes = [\<lparr>mb_topic = Some ''ping'', mb_backlog = [demo_msg]\<rparr>,
                                 \<lparr>mb_topic = Some ''ping'', mb_backlog = [demo_msg]\<rparr>]\<rparr>"
proof -
  have "broker_run (new_in_memory, []) ([] @ [OpSubscribe ''ping''])
      (snd (subscribe ''ping'' new_in_memory), [(''ping'', 0)])"
    by (rule broker_run.call [OF broker_run.none], rule broker_step.subscribe)
      (simp add: subscribe_def new_in_memory_def)
  then have "broker_run (new_in_memory, []) (([] @ [OpSubscribe ''ping'']) @ [OpSubscribe ''ping''])
      (demo_ps2, [(''ping'', 1), (''ping'', 0)])"
    unfolding demo_ps2_def by (rule broker_run.call, intro broker_step.subscribe)
      (simp add: subscribe_def new_in_memory_def)
  from broker_run.call [OF this broker_step.publish [of _ _ "''ping''" demo_msg]]
  have "broker_run (new_in_memory, [])
      ((([] @ [OpSubscribe ''ping'']) @ [OpSubscribe ''ping'']) @ [OpPublish ''ping'' demo_msg])
      (snd (publish ''ping'' demo_msg demo_ps2), [(''ping'', 1), (''ping'', 0)])" .
  from broker_refines_post_office [OF this, of "''ping''" demo_msg]
  show ?thesis by (simp add: empty_office_def deposit_def)
qed

end
