(* ===== verification/Server.thy ===== *)
theory Server
  imports PubSub Go_Os
begin

text \<open>
  \<open>internal/server/server.go\<close>: the local HTTP API.

  A \<open>request\<close> carries what the handlers read: the method, the path the mux matched, the
  Content-Type header (empty when absent) and the JSON value the decoder reads from the start
  of the body, what follows it is ignored (\<open>None\<close> when there is none).  A \<open>response\<close> is the status, the header map and the body.  The server's
  field \<open>ps\<close> is the Go interface \<open>PubSub\<close>, so the handlers take the interface's \<open>Publish\<close>
  as an argument and thread the state behind it; the clock is an argument as well.

  Operations: \<open>serve_http\<close> (routing), \<open>handle_webhook\<close>, \<open>handle_healthz\<close>,
  \<open>normalize_mqtt_topic\<close>, \<open>prepare_unix_socket\<close>.
\<close>

section \<open>Requests and responses\<close>

record request =
  rq_method :: string
  rq_path :: string
  rq_ctype :: string
  rq_body :: "json option"

datatype body =
    TextBody string
  | InvalidJson json_error
  | PublishFailed error
  | QueuedBody string int

record response =
  rs_status :: nat
  rs_headers :: "(string \<times> string) list"
  rs_body :: body

definition new_response :: "(string \<times> string) list \<Rightarrow> nat \<Rightarrow> body \<Rightarrow> response" where
  "new_response hs code b = \<lparr>rs_status = code, rs_headers = hs, rs_body = b\<rparr>"

text \<open>\<open>http.Error\<close>.\<close>

definition http_error :: "(string \<times> string) list \<Rightarrow> body \<Rightarrow> nat \<Rightarrow> response" where
  "http_error hs b code =
     new_response
       (AList.update ''X-Content-Type-Options'' ''nosniff''
         (AList.update ''Content-Type'' ''text/plain; charset=utf-8'' hs)) code b"

section \<open>The webhook request\<close>

record webhook_request =
  wr_thing :: string
  wr_topic :: string
  wr_payload :: "json option"

definition zero_webhook_request :: webhook_request where
  "zero_webhook_request = \<lparr>wr_thing = [], wr_topic = [], wr_payload = None\<rparr>"

definition webhook_fields :: "string list" where
  "webhook_fields = [''iot_thing_name'', ''mqtt_topic_name'', ''mqtt_event_payload'']"

definition set_webhook_field :: "string \<Rightarrow> json \<Rightarrow> webhook_request \<Rightarrow> json_error + webhook_request" where
  "set_webhook_field n v r =
     (if n = ''iot_thing_name'' then
        and_then (decode_string n (wr_thing r) v) (\<lambda>s. Inr (r\<lparr>wr_thing := s\<rparr>))
      else if n = ''mqtt_topic_name'' then
        and_then (decode_string n (wr_topic r) v) (\<lambda>s. Inr (r\<lparr>wr_topic := s\<rparr>))
      else Inr (r\<lparr>wr_payload := Some v\<rparr>))"

definition decode_webhook :: "json option \<Rightarrow> json_error + webhook_request" where
  "decode_webhook doc = decode_struct webhook_fields True set_webhook_field doc zero_webhook_request"

section \<open>Topics\<close>

definition normalize_mqtt_topic :: "string \<Rightarrow> string \<Rightarrow> string" where
  "normalize_mqtt_topic topic thing =
     (if thing = [] then topic
      else
        let needle = ''/things/'' @ thing in
        (case str_index topic needle of
           Some idx \<Rightarrow> replace_first topic needle ''/things''
         | None \<Rightarrow> topic))"

section \<open>Handlers\<close>

definition json_type :: string where
  "json_type = ''application/json''"

definition content_type_rejected :: "string \<Rightarrow> bool" where
  "content_type_rejected ct \<longleftrightarrow>
     (if ct \<noteq> json_type \<and> ct \<noteq> ''application/json; charset=utf-8''
      then ct = [] \<or> length ct < length json_type \<or> take (length json_type) ct \<noteq> json_type
      else False)"

definition handle_webhook ::
  "(string \<Rightarrow> message \<Rightarrow> 's \<Rightarrow> error option outcome \<times> 's) \<Rightarrow> int \<Rightarrow> request \<Rightarrow> 's \<Rightarrow>
   response outcome \<times> 's" where
  "handle_webhook pub now r s =
     (if rq_method r \<noteq> ''POST'' then
        (Returns (http_error [(''Allow'', ''POST'')] (TextBody ''Method Not Allowed'') 405), s)
      else if content_type_rejected (rq_ctype r) then
        (Returns (http_error [] (TextBody ''Content-Type must be application/json'') 415), s)
      else
        case decode_webhook (rq_body r) of
          Inl e \<Rightarrow> (Returns (http_error [] (InvalidJson e) 400), s)
        | Inr req \<Rightarrow>
            if wr_topic req = [] then
              (Returns (http_error [] (TextBody ''missing field: mqtt_topic_name'') 400), s)
            else if wr_thing req = [] then
              (Returns (http_error [] (TextBody ''missing field: iot_thing_name'') 400), s)
            else
              let topic = normalize_mqtt_topic (wr_topic req) (wr_thing req);
                  msg = \<lparr>msg_topic = topic, msg_data = wr_payload req, msg_time = now,
                         msg_thing = wr_thing req\<rparr>
              in (case pub topic msg s of
                    (Panics p, s') \<Rightarrow> (Panics p, s')
                  | (Returns (Some e), s') \<Rightarrow> (Returns (http_error [] (PublishFailed e) 500), s')
                  | (Returns None, s') \<Rightarrow>
                      (Returns (new_response [(''Content-Type'', ''application/json'')] 202
                         (QueuedBody topic now)), s')))"

definition handle_healthz :: "request \<Rightarrow> response" where
  "handle_healthz r = new_response [] 200 (TextBody ''ok'')"

text \<open>The mux with the two patterns that \<open>New\<close> registers, on a canonical path.\<close>

definition serve_http ::
  "(string \<Rightarrow> message \<Rightarrow> 's \<Rightarrow> error option outcome \<times> 's) \<Rightarrow> int \<Rightarrow> request \<Rightarrow> 's \<Rightarrow>
   response outcome \<times> 's" where
  "serve_http pub now r s =
     (if rq_path r = ''/api/v1/webhook'' then handle_webhook pub now r s
      else if rq_path r = ''/healthz'' then (Returns (handle_healthz r), s)
      else (Returns (http_error [] (TextBody ''404 page not found'') 404), s))"

text \<open>\<open>PrepareUnixSocket\<close>: octal 755 is 493 and octal 666 is 438.\<close>

definition prepare_unix_socket :: "string \<Rightarrow> fs \<Rightarrow> unit result \<times> fs" where
  "prepare_unix_socket path s =
     (case mkdir_all (filepath_dir path) 493 s of
        (Some (Error e), s1) \<Rightarrow> (Inl (Error (''mkdir '' @ filepath_dir path @ '': '' @ e)), s1)
      | (None, s1) \<Rightarrow>
          let s2 = (if stat_ok s1 path then snd (remove_file path s1) else s1)
          in (case listen_unix path s2 of
                (Some (Error e), s3) \<Rightarrow> (Inl (Error (''listen unix '' @ path @ '': '' @ e)), s3)
              | (None, s3) \<Rightarrow> (Inr (), snd (chmod path 438 s3))))"

section \<open>Lemmas\<close>

lemma content_type_rejected_iff: "content_type_rejected ct \<longleftrightarrow> \<not> has_prefix ct json_type"
proof -
  have "has_prefix ct json_type" if "ct = json_type \<or> ct = ''application/json; charset=utf-8''"
    using that by (auto simp: has_prefix_def json_type_def)
  moreover have "ct \<noteq> [] \<and> length json_type \<le> length ct" if "has_prefix ct json_type"
    using that has_prefix_length [OF that] by (auto simp: json_type_def)
  ultimately show ?thesis
    unfolding content_type_rejected_def by (auto simp: has_prefix_def not_less)
qed

definition webhook_message :: "webhook_request \<Rightarrow> int \<Rightarrow> message" where
  "webhook_message req now =
     \<lparr>msg_topic = normalize_mqtt_topic (wr_topic req) (wr_thing req), msg_data = wr_payload req,
      msg_time = now, msg_thing = wr_thing req\<rparr>"

text \<open>The requests that reach \<open>Publish\<close>, with what they decode to.\<close>

definition webhook_admits :: "request \<Rightarrow> webhook_request \<Rightarrow> bool" where
  "webhook_admits r req \<longleftrightarrow>
     rq_method r = ''POST'' \<and> has_prefix (rq_ctype r) json_type \<and>
     decode_webhook (rq_body r) = Inr req \<and> wr_topic req \<noteq> [] \<and> wr_thing req \<noteq> []"

lemma handle_webhook_admitted:
  assumes "webhook_admits r req"
  shows "handle_webhook pub now r s =
    (case pub (normalize_mqtt_topic (wr_topic req) (wr_thing req)) (webhook_message req now) s of
       (Panics p, s') \<Rightarrow> (Panics p, s')
     | (Returns (Some e), s') \<Rightarrow> (Returns (http_error [] (PublishFailed e) 500), s')
     | (Returns None, s') \<Rightarrow>
         (Returns (new_response [(''Content-Type'', ''application/json'')] 202
            (QueuedBody (normalize_mqtt_topic (wr_topic req) (wr_thing req)) now)), s'))"
  using assms
  by (simp add: webhook_admits_def handle_webhook_def content_type_rejected_iff
      webhook_message_def Let_def)

lemma handle_webhook_rejected:
  assumes "\<nexists>req. webhook_admits r req"
  shows "\<exists>resp. handle_webhook pub now r s = (Returns resp, s) \<and>
    rs_status resp = (if rq_method r \<noteq> ''POST'' then 405
                      else if \<not> has_prefix (rq_ctype r) json_type then 415 else 400)"
  using assms
  by (auto simp: webhook_admits_def handle_webhook_def content_type_rejected_iff http_error_def
      new_response_def split: sum.splits)

context pubsub_service
begin

text \<open>A webhook never takes the broker out of its invariant, and never panics.\<close>

lemma webhook_inv: "inv s \<Longrightarrow> inv (snd (handle_webhook pub now r s))"
proof (cases "\<exists>req. webhook_admits r req")
  case True
  assume "inv s"
  from True obtain req where "webhook_admits r req" ..
  with pub_inv [OF \<open>inv s\<close>] pub_total [OF \<open>inv s\<close>] show ?thesis
    by (auto simp: handle_webhook_admitted split: prod.splits outcome.splits option.splits
        dest: arg_cong [where f = snd])
       (metis snd_conv)+
next
  case False
  assume "inv s"
  then show ?thesis using handle_webhook_rejected [OF False] by (metis snd_conv)
qed

lemma webhook_accepted:
  assumes "inv s" and "opn s" and "webhook_admits r req"
  defines "t \<equiv> normalize_mqtt_topic (wr_topic req) (wr_thing req)"
  shows "fst (handle_webhook pub now r s) =
      Returns (new_response [(''Content-Type'', ''application/json'')] 202 (QueuedBody t now))"
    and "mem (snd (handle_webhook pub now r s)) = mem s"
    and "que (snd (handle_webhook pub now r s)) c =
      (if c \<in> mem s t \<and> length (que s c) < 64 then que s c @ [webhook_message req now] else que s c)"
proof -
  have "handle_webhook pub now r s =
      (Returns (new_response [(''Content-Type'', ''application/json'')] 202 (QueuedBody t now)),
       snd (pub t (webhook_message req now) s))"
    using pub_open [OF assms(1,2), of t "webhook_message req now"]
    by (cases "pub t (webhook_message req now) s")
      (simp add: handle_webhook_admitted [OF assms(3)] t_def)
  with pub_open [OF assms(1,2)] pub_queue [OF assms(1,2)]
  show "fst (handle_webhook pub now r s) =
      Returns (new_response [(''Content-Type'', ''application/json'')] 202 (QueuedBody t now))"
    and "mem (snd (handle_webhook pub now r s)) = mem s"
    and "que (snd (handle_webhook pub now r s)) c =
      (if c \<in> mem s t \<and> length (que s c) < 64 then que s c @ [webhook_message req now] else que s c)"
    by simp_all
qed

end

section \<open>Properties\<close>

definition demo_request :: request where
  "demo_request =
     \<lparr>rq_method = ''POST'', rq_path = ''/api/v1/webhook'', rq_ctype = ''application/json'',
      rq_body = Some (JObj [(''iot_thing_name'', JStr ''dev''),
        (''mqtt_topic_name'', JStr ''a/things/dev/ping''), (''mqtt_event_payload'', JInt 1)])\<rparr>"

definition demo_req :: webhook_request where
  "demo_req = \<lparr>wr_thing = ''dev'', wr_topic = ''a/things/dev/ping'', wr_payload = Some (JInt 1)\<rparr>"

lemma demo_request_admitted: "webhook_admits demo_request demo_req"
  by (simp add: webhook_admits_def demo_request_def demo_req_def has_prefix_def json_type_def
      decode_webhook_def decode_struct_def webhook_fields_def set_webhook_field_def
      decode_string_def zero_webhook_request_def)

lemma demo_topic: "normalize_mqtt_topic ''a/things/dev/ping'' ''dev'' = ''a/things/ping''"
  by (simp add: normalize_mqtt_topic_def replace_first_def str_index.simps has_prefix_def)

text \<open>
  C16.  Every webhook gets exactly one answer and the handler never panics.  The status is 405
  for a method other than POST, else 415 when the Content-Type does not start with
  \<open>application/json\<close>, else 400 when the body does not decode strictly into the request (or
  lacks the topic or the thing name), else 500 on a closed broker, else 202; only a 202
  changes the broker.
\<close>

theorem webhook_status:
  assumes "broker_reach (ps, hs)"
  shows "\<exists>resp. fst (handle_webhook publish now r ps) = Returns resp \<and>
    rs_status resp =
      (if rq_method r \<noteq> ''POST'' then 405
       else if \<not> has_prefix (rq_ctype r) json_type then 415
       else if \<nexists>req. webhook_admits r req then 400
       else if ps_closed ps then 500 else 202) \<and>
    (rs_status resp \<noteq> 202 \<longrightarrow> snd (handle_webhook publish now r ps) = ps)"
proof (cases "\<exists>req. webhook_admits r req")
  case False
  show ?thesis using handle_webhook_rejected [OF False, of publish now ps] False by auto
next
  case True
  then obtain req where adm: "webhook_admits r req" ..
  then have ok: "rq_method r = ''POST''" "has_prefix (rq_ctype r) json_type"
    by (simp_all add: webhook_admits_def)
  have inv: "ps_inv ps" using broker_reach_inv [OF assms] by simp
  show ?thesis
  proof (cases "ps_closed ps")
    case True
    with adm ok show ?thesis
      by (auto simp: handle_webhook_admitted publish_closed http_error_def new_response_def)
  next
    case False
    then have op: "is_open ps" by (simp add: is_open_def)
    from broker.webhook_accepted(1) [OF inv op adm] adm ok False show ?thesis
      by (auto simp: new_response_def)
  qed
qed

theorem webhook_status_witness:
  "rs_status (case fst (handle_webhook publish 0 (demo_request\<lparr>rq_method := ''GET''\<rparr>) demo_ps3) of
     Returns resp \<Rightarrow> resp | Panics _ \<Rightarrow> http_error [] (TextBody []) 0) = 405"
  using webhook_status [OF demo_reach3, of 0 "demo_request\<lparr>rq_method := ''GET''\<rparr>"]
  by (auto simp: demo_request_def)

text \<open>
  C23.  From the HTTP request to the subscribers: a webhook that is admitted on an open broker
  is answered 202 with the normalized topic, and its payload, thing name and time reach every
  subscriber of that normalized topic that has room, behind what was already waiting; nobody
  else receives anything.
\<close>

theorem webhook_delivers:
  assumes "broker_reach (ps, hs)" and "\<not> ps_closed ps" and "webhook_admits r req"
  defines "t \<equiv> normalize_mqtt_topic (wr_topic req) (wr_thing req)"
  shows "fst (handle_webhook publish now r ps) =
      Returns (new_response [(''Content-Type'', ''application/json'')] 202 (QueuedBody t now)) \<and>
    (\<forall>c. queue (snd (handle_webhook publish now r ps)) c =
       (if c \<in> members ps t \<and> length (queue ps c) < 64
        then queue ps c @ [\<lparr>msg_topic = t, msg_data = wr_payload req, msg_time = now,
                            msg_thing = wr_thing req\<rparr>]
        else queue ps c))"
proof -
  have inv: "ps_inv ps" using broker_reach_inv [OF assms(1)] by simp
  have op: "is_open ps" using assms(2) by (simp add: is_open_def)
  note facts = broker.webhook_accepted [OF inv op assms(3), folded t_def]
  show ?thesis using facts(1) facts(3) by (simp add: webhook_message_def t_def)
qed

definition demo_sub :: pubsub where
  "demo_sub = snd (subscribe ''a/things/ping'' new_in_memory)"

lemma demo_sub_reach: "broker_reach (demo_sub, [(''a/things/ping'', 0)])"
  unfolding demo_sub_def
  by (rule broker_reach.step [OF broker_reach.start], rule broker_step.subscribe)
    (simp add: subscribe_def new_in_memory_def)

theorem webhook_delivers_witness:
  "map msg_data (queue (snd (handle_webhook publish 7 demo_request demo_sub)) 0) = [Some (JInt 1)]"
proof -
  have op: "\<not> ps_closed demo_sub" by (simp add: demo_sub_def subscribe_def new_in_memory_def)
  have "0 \<in> members demo_sub ''a/things/ping''" "queue demo_sub 0 = []"
    by (simp_all add: demo_sub_def members_def queue_def subscribe_def new_in_memory_def)
  with webhook_delivers [OF demo_sub_reach op demo_request_admitted, of 7]
  show ?thesis by (simp add: demo_req_def demo_topic)
qed



text \<open>
  The comparison does not stop at a segment boundary: when the thing name is a proper
  prefix of the topic's own device segment, the prefix is cut out of that segment, so the
  message is routed to a topic that names no \<open>things\<close> collection at all (for the thing
  \<open>dev\<close>, the topic of \<open>dev2\<close> becomes \<open>$aws/things2/...\<close>).
\<close>

theorem normalize_cuts_inside_segment:
  assumes "thing \<noteq> []"
  shows "normalize_mqtt_topic (''$aws/things/'' @ thing @ extra @ ''/tunnels/notify'') thing =
    ''$aws/things'' @ extra @ ''/tunnels/notify''"
proof -
  let ?topic = "''$aws/things/'' @ thing @ extra @ ''/tunnels/notify''"
  let ?needle = "''/things/'' @ thing"
  have idx: "str_index ?topic ?needle = Some 4"
    by (simp add: str_index.simps [of "CHR ''$'' # _"] str_index.simps [of "CHR ''a'' # _"]
        str_index.simps [of "CHR ''w'' # _"] str_index.simps [of "CHR ''s'' # _"]
        str_index.simps [of "CHR ''/'' # _"] has_prefix_def)
  have "replace_first ?topic ?needle ''/things'' =
      ''$aws'' @ ''/things'' @ (extra @ ''/tunnels/notify'')"
    by (rule replace_first_at) (use idx in simp_all)
  with idx assms show ?thesis by (simp add: normalize_mqtt_topic_def Let_def)
qed

theorem normalize_cuts_inside_segment_witness:
  "normalize_mqtt_topic ''$aws/things/dev2/tunnels/notify'' ''dev'' = ''$aws/things2/tunnels/notify''"
  using normalize_cuts_inside_segment [of "''dev''" "''2''"] by simp

text \<open>
  C25.  When \<open>PrepareUnixSocket\<close> succeeds, the path holds a socket with permission bits 666,
  whatever stale file or socket was there before and whatever the umask; files elsewhere are
  as they were.
\<close>

theorem prepare_unix_socket_ok:
  assumes "fst (prepare_unix_socket path s) = Inr ()"
  shows "node_at (snd (prepare_unix_socket path s)) path = Some (Socket 438) \<and>
    (\<forall>q. at s q \<noteq> at s path \<longrightarrow> content (snd (prepare_unix_socket path s)) q = content s q)"
proof -
  let ?s1 = "snd (mkdir_all (filepath_dir path) 493 s)"
  let ?s2 = "if stat_ok ?s1 path then snd (remove_file path ?s1) else ?s1"
  have m: "mkdir_all (filepath_dir path) 493 s = (None, ?s1)"
    and l: "fst (listen_unix path ?s2) = None"
    and eq: "snd (prepare_unix_socket path s) = snd (chmod path 438 (snd (listen_unix path ?s2)))"
    using assms by (auto simp: prepare_unix_socket_def Let_def
        split: prod.splits option.splits error.splits)
  have at1: "at ?s1 q = at s q" for q by simp
  have at2: "at ?s2 q = at s q" for q
    by (auto simp: remove_file_def Let_def split: option.splits node.splits)
  have other2: "fs_nodes ?s2 k = fs_nodes ?s1 k" if "k \<noteq> at s path" for k
    using that by (auto simp: remove_file_def Let_def split: option.splits node.splits)
  have s3: "snd (listen_unix path ?s2) = set_node (at s path) (Some (Socket (masked ?s2 511))) ?s2"
    and nd: "\<not> fs_denied ?s2 (at s path)"
    using l unfolding listen_unix_def Let_def at2 by (auto split: if_splits)
  then have s4: "snd (prepare_unix_socket path s) = set_node (at s path) (Some (Socket 438))
      (set_node (at s path) (Some (Socket (masked ?s2 511))) ?s2)"
    unfolding eq s3 chmod_def Let_def by (simp add: at2)
  have at4: "at (snd (prepare_unix_socket path s)) q = at s q" for q
    unfolding s4 by (simp add: at2)
  have "content (snd (prepare_unix_socket path s)) q = content s q" if q: "at s q \<noteq> at s path" for q
  proof -
    have "fs_nodes (snd (prepare_unix_socket path s)) (at s q) = fs_nodes ?s1 (at s q)"
      unfolding s4 using q other2 [OF q] by simp
    then have "content (snd (prepare_unix_socket path s)) q = content ?s1 q"
      by (simp only: content_def at4 at1)
    then show ?thesis by simp
  qed
  moreover have "node_at (snd (prepare_unix_socket path s)) path = Some (Socket 438)"
    unfolding at4 unfolding s4 by simp
  ultimately show ?thesis by blast
qed

definition demo_fs :: fs where
  "demo_fs = \<lparr>fs_nodes = (\<lambda>k. None)([''run''] \<mapsto> Dir 493, [''run'', ''t.sock''] \<mapsto> Socket 511),
     fs_cwd = [], fs_umask = 18, fs_denied = (\<lambda>k. False), fs_nospace = (\<lambda>k. False)\<rparr>"

theorem prepare_unix_socket_ok_witness:
  "node_at (snd (prepare_unix_socket ''/run/t.sock'' demo_fs)) ''/run/t.sock'' = Some (Socket 438)"
proof -
  have "fst (prepare_unix_socket ''/run/t.sock'' demo_fs) = Inr ()"
    by (simp add: prepare_unix_socket_def mkdir_all_def filepath_dir_def path_clean_def
        resolve_def rooted_def has_prefix_def demo_fs_def stat_ok_def remove_file_def
        listen_unix_def is_dir_def Let_def)
  from prepare_unix_socket_ok [OF this] show ?thesis by blast
qed

end
