(* ===== verification/Subscribers.thy ===== *)
theory Subscribers
  imports PubSub Go_Os
begin

text \<open>
  \<open>internal/subscribers\<close>: the subscribers of the local broker.

  \<open>starter\<close> is the Go struct \<open>starter\<close>: the unsubscribe closures are the pairs of topic and
  channel they capture, and \<open>sr_consumers\<close> lists the goroutines \<open>On\<close> started (the channel a
  goroutine ranges over with its topic and handler).  The broker is reached through the
  interface \<open>PubSub\<close>, so \<open>on_topic\<close>, \<open>start_subscribers\<close> and \<open>stop_subscribers\<close> take its
  operations as arguments; the facts about them are proved for every \<open>pubsub_service\<close>.

  Handlers act on a \<open>world\<close>: the log (one structured entry per \<open>Printf\<close>), the file system and
  the tunnel manager.  The methods \<open>SetServer\<close>, \<open>AddRemote\<close> and \<open>Restart\<close> that
  \<open>tunnels.go\<close> calls do not exist in \<open>internal/tunnel\<close>; they are the parameter \<open>remote_ops\<close>.
\<close>

section \<open>State\<close>

datatype subscriber = PingSub | CredentialsSub | AwsTunnelsSub | TunnelsSub | CommandsSub

record starter =
  sr_stops :: "(string \<times> chan_id) list"
  sr_consumers :: "(chan_id \<times> string \<times> subscriber) list"
  sr_failed :: "(string \<times> error) list"

datatype log_entry =
    LogPing int "json option"
  | LogNotification string string "json option"
  | LogBadPayload string string json_error
  | LogMissingFields string string
  | LogTempDirFailed string error
  | LogWriteFailed string string error
  | LogSaved string string
  | LogSavedTemp string string
  | LogRestartFailed string error
  | LogTunnelApplied string string string
  | LogPanic string string

record 'm world =
  wd_log :: "log_entry list"
  wd_fs :: fs
  wd_tunnel :: 'm

record 'm remote_ops =
  ro_set_server :: "string \<Rightarrow> 'm \<Rightarrow> 'm"
  ro_add_remote :: "string \<Rightarrow> 'm \<Rightarrow> 'm"
  ro_restart :: "'m \<Rightarrow> error option outcome \<times> 'm"

definition log_line :: "log_entry \<Rightarrow> 'm world \<Rightarrow> 'm world" where
  "log_line e w = w\<lparr>wd_log := wd_log w @ [e]\<rparr>"

section \<open>Starting and stopping\<close>

definition ping_topic :: string where "ping_topic = ''ping''"
definition credentials_topic :: string where "credentials_topic = ''tessa/things/certificates/notify''"
definition aws_tunnels_topic :: string where "aws_tunnels_topic = ''$aws/things/tunnels/notify''"
definition tunnels_topic :: string where "tunnels_topic = ''tessa/things/tunnels/notify''"
definition commands_topic :: string where "commands_topic = ''tessa/things/commands/notify''"

text \<open>\<open>On\<close>.\<close>

definition on_topic ::
  "(string \<Rightarrow> 's \<Rightarrow> chan_id result \<times> 's) \<Rightarrow> string \<Rightarrow> subscriber \<Rightarrow> starter \<times> 's \<Rightarrow> starter \<times> 's" where
  "on_topic sub topic h st =
     (case sub topic (snd st) of
        (Inl e, s) \<Rightarrow> ((fst st)\<lparr>sr_failed := sr_failed (fst st) @ [(topic, e)]\<rparr>, s)
      | (Inr ch, s) \<Rightarrow>
          ((fst st)\<lparr>sr_stops := sr_stops (fst st) @ [(topic, ch)],
                    sr_consumers := sr_consumers (fst st) @ [(ch, topic, h)]\<rparr>, s))"

definition register_tunnels ::
  "(string \<Rightarrow> 's \<Rightarrow> chan_id result \<times> 's) \<Rightarrow> starter \<times> 's \<Rightarrow> starter \<times> 's" where
  "register_tunnels sub st = on_topic sub tunnels_topic TunnelsSub (on_topic sub aws_tunnels_topic AwsTunnelsSub st)"

definition start_subscribers ::
  "(string \<Rightarrow> 's \<Rightarrow> chan_id result \<times> 's) \<Rightarrow> 's \<Rightarrow> starter \<times> 's" where
  "start_subscribers sub s =
     on_topic sub commands_topic CommandsSub
       (register_tunnels sub
         (on_topic sub credentials_topic CredentialsSub
           (on_topic sub ping_topic PingSub
             (\<lparr>sr_stops = [], sr_consumers = [], sr_failed = []\<rparr>, s))))"

text \<open>The function \<open>Start\<close> returns: every unsubscribe closure in order, until one panics.\<close>

fun stop_subscribers ::
  "(string \<Rightarrow> chan_id \<Rightarrow> 's \<Rightarrow> unit outcome \<times> 's) \<Rightarrow> (string \<times> chan_id) list \<Rightarrow> 's \<Rightarrow>
   unit outcome \<times> 's" where
  "stop_subscribers uns [] s = (Returns (), s)"
| "stop_subscribers uns ((t, c) # fs) s =
     (case uns t c s of
        (Panics m, s') \<Rightarrow> (Panics m, s')
      | (Returns _, s') \<Rightarrow> stop_subscribers uns fs s')"

section \<open>Handlers\<close>

definition handle_ping :: "message \<Rightarrow> 'm world \<Rightarrow> 'm world" where
  "handle_ping m = log_line (LogPing (msg_time m) (msg_data m))"

text \<open>The commands subscriber names the thing only when there is one.\<close>

definition handle_commands_notify :: "message \<Rightarrow> 'm world \<Rightarrow> 'm world" where
  "handle_commands_notify m = log_line (LogNotification commands_topic (msg_thing m) (msg_data m))"

definition handle_aws_tunnels :: "message \<Rightarrow> 'm world \<Rightarrow> 'm world" where
  "handle_aws_tunnels m = log_line (LogNotification aws_tunnels_topic (msg_thing m) (msg_data m))"

text \<open>\<open>credentials.go\<close>.\<close>

record credentials_payload =
  cp_certificate :: string
  cp_private_key :: string
  cp_root_ca :: string

definition set_credentials_field ::
  "string \<Rightarrow> json \<Rightarrow> credentials_payload \<Rightarrow> json_error + credentials_payload" where
  "set_credentials_field n v r =
     (if n = ''certificate'' then
        and_then (decode_string n (cp_certificate r) v) (\<lambda>s. Inr (r\<lparr>cp_certificate := s\<rparr>))
      else if n = ''private_key'' then
        and_then (decode_string n (cp_private_key r) v) (\<lambda>s. Inr (r\<lparr>cp_private_key := s\<rparr>))
      else and_then (decode_string n (cp_root_ca r) v) (\<lambda>s. Inr (r\<lparr>cp_root_ca := s\<rparr>)))"

definition decode_credentials :: "json option \<Rightarrow> json_error + credentials_payload" where
  "decode_credentials doc =
     decode_struct [''certificate'', ''private_key'', ''root_ca''] False set_credentials_field doc
       \<lparr>cp_certificate = [], cp_private_key = [], cp_root_ca = []\<rparr>"

text \<open>
  The three writes, octal 644, 600 and 644, each with a newline after the data; the error names
  the file as the log line does.
\<close>

definition line :: "string \<Rightarrow> string" where
  "line data = data @ [CHR 0x0A]"

definition write_credentials ::
  "string \<Rightarrow> credentials_payload \<Rightarrow> fs \<Rightarrow> (string \<times> error) option \<times> fs" where
  "write_credentials dir p s =
     (case write_file (filepath_join dir ''secure_tunnel.crt'') (line (cp_certificate p)) 420 s of
        (Some e, s1) \<Rightarrow> (Some (''certificate.pem'', e), s1)
      | (None, s1) \<Rightarrow>
     (case write_file (filepath_join dir ''secure_tunnel.key'') (line (cp_private_key p)) 384 s1 of
        (Some e, s2) \<Rightarrow> (Some (''private_key.pem'', e), s2)
      | (None, s2) \<Rightarrow>
     (case write_file (filepath_join dir ''root_ca.crt'') (line (cp_root_ca p)) 420 s2 of
        (Some e, s3) \<Rightarrow> (Some (''root_ca.pem'', e), s3)
      | (None, s3) \<Rightarrow> (None, s3))))"

text \<open>\<open>tmp\<close> is the path \<open>os.MkdirTemp\<close> tries.\<close>

definition handle_credentials :: "string \<Rightarrow> string \<Rightarrow> message \<Rightarrow> 'm world \<Rightarrow> 'm world" where
  "handle_credentials cred_dir tmp m w =
     (let thing = msg_thing m in
      case decode_credentials (msg_data m) of
        Inl e \<Rightarrow> log_line (LogBadPayload credentials_topic thing e) w
      | Inr p \<Rightarrow>
          if cp_certificate p = [] \<or> cp_private_key p = [] \<or> cp_root_ca p = [] then
            log_line (LogMissingFields credentials_topic thing) w
          else
            (case (if cred_dir = [] then mkdir_temp tmp (wd_fs w) else (Inr cred_dir, wd_fs w)) of
               (Inl e, s) \<Rightarrow> log_line (LogTempDirFailed thing e) (w\<lparr>wd_fs := s\<rparr>)
             | (Inr dir, s) \<Rightarrow>
                 (case write_credentials dir p s of
                    (Some (file, e), s') \<Rightarrow> log_line (LogWriteFailed thing file e) (w\<lparr>wd_fs := s'\<rparr>)
                  | (None, s') \<Rightarrow>
                      log_line (if cred_dir \<noteq> [] then LogSaved thing cred_dir else LogSavedTemp thing dir)
                        (w\<lparr>wd_fs := s'\<rparr>))))"

text \<open>\<open>tunnels.go\<close>.\<close>

record tunnel_payload =
  tp_server :: string
  tp_server_port :: int
  tp_client_port :: int

definition set_tunnel_field :: "string \<Rightarrow> json \<Rightarrow> tunnel_payload \<Rightarrow> json_error + tunnel_payload" where
  "set_tunnel_field n v r =
     (if n = ''server'' then
        and_then (decode_string n (tp_server r) v) (\<lambda>s. Inr (r\<lparr>tp_server := s\<rparr>))
      else if n = ''server_port'' then
        and_then (decode_int n (tp_server_port r) v) (\<lambda>i. Inr (r\<lparr>tp_server_port := i\<rparr>))
      else and_then (decode_int n (tp_client_port r) v) (\<lambda>i. Inr (r\<lparr>tp_client_port := i\<rparr>)))"

definition decode_tunnel :: "json option \<Rightarrow> json_error + tunnel_payload" where
  "decode_tunnel doc =
     decode_struct [''server'', ''server_port'', ''client_port''] False set_tunnel_field doc
       \<lparr>tp_server = [], tp_server_port = 0, tp_client_port = 0\<rparr>"

definition ssh_remote :: "tunnel_payload \<Rightarrow> string" where
  "ssh_remote p = ''R:'' @ itoa (tp_server_port p) @ '':localhost:'' @ itoa (tp_client_port p)"

definition handle_tunnels :: "'m remote_ops \<Rightarrow> message \<Rightarrow> 'm world \<Rightarrow> unit outcome \<times> 'm world" where
  "handle_tunnels R m w =
     (let thing = msg_thing m in
      case decode_tunnel (msg_data m) of
        Inl e \<Rightarrow> (Returns (), log_line (LogBadPayload tunnels_topic thing e) w)
      | Inr p \<Rightarrow>
          if tp_server p = [] \<or> tp_server_port p = 0 \<or> tp_client_port p = 0 then
            (Returns (), log_line (LogMissingFields tunnels_topic thing) w)
          else
            (case ro_restart R (ro_add_remote R (ssh_remote p)
                (ro_set_server R (tp_server p) (wd_tunnel w))) of
               (Panics e, t) \<Rightarrow> (Panics e, w\<lparr>wd_tunnel := t\<rparr>)
             | (Returns (Some e), t) \<Rightarrow>
                 (Returns (), log_line (LogRestartFailed thing e) (w\<lparr>wd_tunnel := t\<rparr>))
             | (Returns None, t) \<Rightarrow>
                 (Returns (), log_line (LogTunnelApplied thing (tp_server p) (ssh_remote p))
                                (w\<lparr>wd_tunnel := t\<rparr>))))"

definition handle_message ::
  "'m remote_ops \<Rightarrow> string \<Rightarrow> string \<Rightarrow> subscriber \<Rightarrow> message \<Rightarrow> 'm world \<Rightarrow>
   unit outcome \<times> 'm world" where
  "handle_message R cred_dir tmp h m w =
     (case h of
        PingSub \<Rightarrow> (Returns (), handle_ping m w)
      | CredentialsSub \<Rightarrow> (Returns (), handle_credentials cred_dir tmp m w)
      | AwsTunnelsSub \<Rightarrow> (Returns (), handle_aws_tunnels m w)
      | TunnelsSub \<Rightarrow> handle_tunnels R m w
      | CommandsSub \<Rightarrow> (Returns (), handle_commands_notify m w))"

section \<open>The consumer goroutine\<close>

text \<open>
  The body of \<open>for msg := range ch\<close>: the handler under a deferred \<open>recover\<close> that logs a panic.
  \<open>consume\<close> is the loop over the messages in the order the channel delivers them, with the
  temporary path each of them would use.
\<close>

definition recovered ::
  "string \<Rightarrow> (message \<Rightarrow> 'w \<Rightarrow> unit outcome \<times> 'm world) \<Rightarrow> message \<Rightarrow> 'w \<Rightarrow> 'm world" where
  "recovered topic handler m w =
     (case handler m w of
        (Returns _, w') \<Rightarrow> w'
      | (Panics r, w') \<Rightarrow> log_line (LogPanic topic r) w')"

fun consume ::
  "'m remote_ops \<Rightarrow> string \<Rightarrow> string \<Rightarrow> subscriber \<Rightarrow> (string \<times> message) list \<Rightarrow> 'm world \<Rightarrow> 'm world" where
  "consume R cred_dir topic h [] w = w"
| "consume R cred_dir topic h ((tmp, m) # ms) w =
     consume R cred_dir topic h ms (recovered topic (handle_message R cred_dir tmp h) m w)"

section \<open>Starting on any broker\<close>

text \<open>
  What \<open>On\<close> keeps true: the closures collected so far are subscriptions of the broker, on
  channels that were no member of any topic before \<open>Start\<close>, and each has one consumer.
\<close>

definition registrations :: "(string \<times> subscriber) list" where
  "registrations =
     [(ping_topic, PingSub), (credentials_topic, CredentialsSub), (aws_tunnels_topic, AwsTunnelsSub),
      (tunnels_topic, TunnelsSub), (commands_topic, CommandsSub)]"

lemma start_subscribers_fold:
  "start_subscribers sub s =
     fold (\<lambda>(t, h). on_topic sub t h) registrations
       (\<lparr>sr_stops = [], sr_consumers = [], sr_failed = []\<rparr>, s)"
  by (simp add: start_subscribers_def register_tunnels_def registrations_def)

context pubsub_service
begin

definition started :: "'s \<Rightarrow> starter \<times> 's \<Rightarrow> bool" where
  "started s0 st \<longleftrightarrow>
     inv (snd st) \<and> opn (snd st) \<and> sr_failed (fst st) = [] \<and>
     map (\<lambda>(c, t, h). (t, c)) (sr_consumers (fst st)) = sr_stops (fst st) \<and>
     distinct (map snd (sr_stops (fst st))) \<and>
     (\<forall>(t, c) \<in> set (sr_stops (fst st)). (\<forall>t'. c \<notin> mem s0 t') \<and> que (snd st) c = []) \<and>
     (\<forall>t. mem (snd st) t = mem s0 t \<union> {c. (t, c) \<in> set (sr_stops (fst st))})"

lemma started_init:
  "inv s \<Longrightarrow> opn s \<Longrightarrow> started s (\<lparr>sr_stops = [], sr_consumers = [], sr_failed = []\<rparr>, s)"
  by (simp add: started_def)

lemma started_on_topic:
  assumes "started s0 st"
  obtains c where "started s0 (on_topic sub t h st)"
    and "sr_stops (fst (on_topic sub t h st)) = sr_stops (fst st) @ [(t, c)]"
    and "sr_consumers (fst (on_topic sub t h st)) = sr_consumers (fst st) @ [(c, t, h)]"
proof -
  let ?s = "snd st"
  have st: "inv ?s" "opn ?s" using assms by (simp_all add: started_def)
  obtain c where c: "fst (sub t ?s) = Inr c" "inv (snd (sub t ?s))" "opn (snd (sub t ?s))"
      "\<forall>t'. c \<notin> mem ?s t'" "mem (snd (sub t ?s)) = (mem ?s)(t := insert c (mem ?s t))"
      "que ?s c = []" "que (snd (sub t ?s)) = que ?s"
    using sub_open [OF st, of t] by blast
  have eq: "on_topic sub t h st =
      ((fst st)\<lparr>sr_stops := sr_stops (fst st) @ [(t, c)],
                sr_consumers := sr_consumers (fst st) @ [(c, t, h)]\<rparr>, snd (sub t ?s))"
    using c(1) by (cases "sub t ?s") (simp add: on_topic_def)
  have fresh: "c \<notin> mem s0 t'" "(t', c) \<notin> set (sr_stops (fst st))" for t'
    using c(4) assms by (auto simp: started_def)
  have "started s0 (on_topic sub t h st)"
    using assms c fresh by (auto simp: started_def eq)
  with that eq show ?thesis by simp
qed

lemma started_on_all:
  assumes "started s0 st"
  shows "started s0 (fold (\<lambda>(t, h). on_topic sub t h) regs st) \<and>
    map fst (sr_stops (fst (fold (\<lambda>(t, h). on_topic sub t h) regs st))) =
      map fst (sr_stops (fst st)) @ map fst regs \<and>
    map snd (sr_consumers (fst (fold (\<lambda>(t, h). on_topic sub t h) regs st))) =
      map snd (sr_consumers (fst st)) @ regs"
  using assms
proof (induction regs arbitrary: st)
  case (Cons r regs)
  obtain t h where r: "r = (t, h)" by force
  from Cons.prems obtain c where "started s0 (on_topic sub t h st)"
    and "sr_stops (fst (on_topic sub t h st)) = sr_stops (fst st) @ [(t, c)]"
    and "sr_consumers (fst (on_topic sub t h st)) = sr_consumers (fst st) @ [(c, t, h)]"
    by (rule started_on_topic)
  with Cons.IH [of "on_topic sub t h st"] show ?case by (simp add: r)
qed simp

text \<open>Calling the closures that \<open>Start\<close> collected gives the old membership back.\<close>

lemma stop_started:
  assumes "inv s" and "distinct (map snd fs)" and "\<forall>(t, c) \<in> set fs. c \<in> mem s t"
  shows "fst (stop_subscribers uns fs s) = Returns () \<and>
    mem (snd (stop_subscribers uns fs s)) = (\<lambda>t. mem s t - {c. (t, c) \<in> set fs})"
  using assms
proof (induction fs arbitrary: s)
  case (Cons f fs)
  obtain t c where f: "f = (t, c)" by force
  have c: "c \<in> mem s t" using Cons.prems(3) f by simp
  let ?s = "snd (uns t c s)"
  have u: "fst (uns t c s) = Returns ()" "inv ?s" "mem ?s = (mem s)(t := mem s t - {c})"
    using uns_member [OF Cons.prems(1) c] by blast+
  have "\<forall>(t', c') \<in> set fs. c' \<in> mem ?s t'"
    using Cons.prems(2,3) f u(3) by (force simp: image_iff)
  from Cons.IH [OF u(2) _ this] Cons.prems(2) u(1,3) f
  show ?case by (cases "uns t c s") (auto simp: fun_eq_iff)
qed simp

lemma start_started:
  assumes "inv s" and "opn s"
  shows "started s (start_subscribers sub s)"
    and "map fst (sr_stops (fst (start_subscribers sub s))) = map fst registrations"
    and "map snd (sr_consumers (fst (start_subscribers sub s))) = registrations"
  using started_on_all [OF started_init [OF assms], of registrations]
  by (simp_all add: start_subscribers_fold)

lemma start_closed:
  assumes "inv s" and "\<not> opn s"
  shows "start_subscribers sub s =
    (\<lparr>sr_stops = [], sr_consumers = [], sr_failed = map (\<lambda>(t, h). (t, closed_error)) registrations\<rparr>, s)"
  using sub_closed [OF assms]
  by (simp add: start_subscribers_fold registrations_def on_topic_def)

lemma stop_after_start:
  assumes "inv s" and "opn s"
  defines "r \<equiv> start_subscribers sub s"
  shows "fst (stop_subscribers uns (sr_stops (fst r)) (snd r)) = Returns () \<and>
    mem (snd (stop_subscribers uns (sr_stops (fst r)) (snd r))) = mem s"
proof -
  note st = start_started(1) [OF assms(1,2), folded r_def, unfolded started_def]
  have "\<forall>(t, c) \<in> set (sr_stops (fst r)). c \<in> mem (snd r) t" using st by auto
  with stop_started [of "snd r" "sr_stops (fst r)"] st show ?thesis by (auto simp: fun_eq_iff)
qed

end

text \<open>Every consumed message leaves exactly one line in the log, panic or not.\<close>

lemma log_line_sel [simp]: "wd_log (log_line e w) = wd_log w @ [e]"
  "wd_fs (log_line e w) = wd_fs w" "wd_tunnel (log_line e w) = wd_tunnel w"
  by (simp_all add: log_line_def)

lemma handle_credentials_log:
  "\<exists>e. wd_log (handle_credentials cred_dir tmp m w) = wd_log w @ [e]"
  by (auto simp: handle_credentials_def Let_def split: sum.split prod.split option.split)

lemma recovered_log:
  "\<exists>e. wd_log (recovered topic (handle_message R cred_dir tmp h) m w) = wd_log w @ [e]"
proof (cases h)
  case CredentialsSub
  with handle_credentials_log show ?thesis by (simp add: recovered_def handle_message_def)
next
  case TunnelsSub
  then show ?thesis
    by (auto simp: recovered_def handle_message_def handle_tunnels_def Let_def
        split: sum.split prod.split option.split outcome.split)
qed (simp_all add: recovered_def handle_message_def handle_ping_def handle_aws_tunnels_def
    handle_commands_notify_def)

lemma recovered_panic_line:
  assumes "wd_log (recovered topic (handle_message R cred_dir tmp h) m w) = wd_log w @ [e]"
  shows "(\<exists>r. e = LogPanic topic r) \<longleftrightarrow> panics (fst (handle_message R cred_dir tmp h m w))"
  using assms
  by (cases h)
    (auto simp: recovered_def handle_message_def handle_ping_def handle_aws_tunnels_def
      handle_commands_notify_def handle_tunnels_def handle_credentials_def Let_def
      split: sum.splits prod.splits option.splits outcome.splits if_splits)

lemma consume_append:
  "consume R cred_dir topic h (ms @ ns) w =
     consume R cred_dir topic h ns (consume R cred_dir topic h ms w)"
  by (induction R cred_dir topic h ms w rule: consume.induct) simp_all

text \<open>A credentials message: the writes as a sequence of writes.\<close>

definition credential_files :: "string \<Rightarrow> credentials_payload \<Rightarrow> (string \<times> string \<times> mode) list" where
  "credential_files dir p =
     [(filepath_join dir ''secure_tunnel.crt'', line (cp_certificate p), 420),
      (filepath_join dir ''secure_tunnel.key'', line (cp_private_key p), 384),
      (filepath_join dir ''root_ca.crt'', line (cp_root_ca p), 420)]"

lemma write_credentials_files:
  "fst (write_credentials dir p s) = None \<longleftrightarrow>
     fst (write_files write_file (credential_files dir p) s) = None"
  "snd (write_credentials dir p s) = snd (write_files write_file (credential_files dir p) s)"
  by (auto simp: write_credentials_def credential_files_def split: prod.split option.split)

lemma credential_paths_distinct:
  assumes "dir \<noteq> []"
  shows "distinct (map (\<lambda>(q, _). at s q) (credential_files dir p))"
  using assms by (simp add: credential_files_def resolve_filepath_join plain_name_def)

section \<open>Properties\<close>

text \<open>
  C32.  \<open>Start\<close> on an open broker subscribes the five predefined topics, each on a fresh channel
  of its own with one consumer goroutine and the topic's handler, and loses no subscription
  of anyone else; the returned stop function then never panics and leaves the broker with
  exactly the subscribers it had before.  On a closed broker nothing is subscribed, the five
  failures are recorded and the broker is untouched.
\<close>

theorem start_subscribes_and_stop_undoes:
  assumes "pubsub_service pub sub uns ok opn mem que" and "ok s"
    and "start_subscribers sub s = (st, s1)"
  shows "if opn s then
      sr_failed st = [] \<and>
      map snd (sr_consumers st) =
        [(''ping'', PingSub), (''tessa/things/certificates/notify'', CredentialsSub),
         (''$aws/things/tunnels/notify'', AwsTunnelsSub), (''tessa/things/tunnels/notify'', TunnelsSub),
         (''tessa/things/commands/notify'', CommandsSub)] \<and>
      distinct (map fst (sr_consumers st)) \<and>
      (\<forall>(c, t, h) \<in> set (sr_consumers st). (\<forall>t'. c \<notin> mem s t') \<and> que s1 c = []) \<and>
      (\<forall>t. mem s1 t = mem s t \<union> {c. \<exists>h. (c, t, h) \<in> set (sr_consumers st)}) \<and>
      fst (stop_subscribers uns (sr_stops st) s1) = Returns () \<and>
      mem (snd (stop_subscribers uns (sr_stops st) s1)) = mem s
    else sr_consumers st = [] \<and> sr_stops st = [] \<and> length (sr_failed st) = 5 \<and> s1 = s"
proof (cases "opn s")
  case True
  note r = pubsub_service.start_started [OF assms(1,2) True, unfolded assms(3) fst_conv]
  have eq: "sr_stops st = map (\<lambda>(c, t, h). (t, c)) (sr_consumers st)"
    using r(1) by (simp add: pubsub_service.started_def [OF assms(1)])
  have "map snd (sr_stops st) = map fst (sr_consumers st)" by (auto simp: eq)
  moreover have "{c. (t, c) \<in> set (sr_stops st)} = {c. \<exists>h. (c, t, h) \<in> set (sr_consumers st)}" for t
    by (force simp: eq)
  moreover have "\<forall>(c, t, h) \<in> set (sr_consumers st). (t, c) \<in> set (sr_stops st)"
    by (force simp: eq)
  ultimately show ?thesis
    using True r pubsub_service.stop_after_start [OF assms(1,2) True, unfolded assms(3) fst_conv snd_conv]
    unfolding pubsub_service.started_def [OF assms(1)] fst_conv snd_conv
    by (fastforce simp: registrations_def ping_topic_def credentials_topic_def aws_tunnels_topic_def
        tunnels_topic_def commands_topic_def)
next
  case False
  with pubsub_service.start_closed [OF assms(1,2) False] assms(3)
  show ?thesis by (auto simp: registrations_def)
qed

theorem start_subscribes_and_stop_undoes_witness:
  "members (snd (stop_subscribers unsub (sr_stops (fst (start_subscribers subscribe new_in_memory)))
     (snd (start_subscribers subscribe new_in_memory)))) = members new_in_memory"
  using start_subscribes_and_stop_undoes [OF broker.pubsub_service_axioms new_in_memory_inv, of
      "fst (start_subscribers subscribe new_in_memory)" "snd (start_subscribers subscribe new_in_memory)"]
  by (simp add: is_open_def new_in_memory_def)

text \<open>
  C33.  A consumer goroutine survives its handler: every message it takes, in order, leaves
  exactly one line in the log, the report of a recovered panic when the handler panicked on
  it and the handler's own line otherwise, and the messages after it are handled from the
  state the handler left.
\<close>

theorem consumer_survives_panics:
  "\<exists>es. wd_log (consume R cred_dir topic h ms w) = wd_log w @ es \<and> length es = length ms \<and>
     (\<forall>i < length ms.
        (\<exists>e. es ! i = LogPanic topic e) \<longleftrightarrow>
        panics (fst (handle_message R cred_dir (fst (ms ! i)) h (snd (ms ! i))
                      (consume R cred_dir topic h (take i ms) w))))"
proof (induction ms arbitrary: w)
  case Nil
  show ?case by simp
next
  case (Cons tm ms)
  obtain tmp m where tm: "tm = (tmp, m)" by force
  let ?w = "recovered topic (handle_message R cred_dir tmp h) m w"
  obtain e where e: "wd_log ?w = wd_log w @ [e]" using recovered_log by blast
  obtain es where es: "wd_log (consume R cred_dir topic h ms ?w) = wd_log ?w @ es"
      "length es = length ms"
      "\<forall>i < length ms. (\<exists>e. es ! i = LogPanic topic e) \<longleftrightarrow>
        panics (fst (handle_message R cred_dir (fst (ms ! i)) h (snd (ms ! i))
                      (consume R cred_dir topic h (take i ms) ?w)))"
    using Cons.IH by blast
  have "(\<exists>r. e = LogPanic topic r) \<longleftrightarrow> panics (fst (handle_message R cred_dir tmp h m w))"
    using e by (rule recovered_panic_line)
  with es e tm show ?case
    by (intro exI [of _ "e # es"]) (auto simp: less_Suc_eq_0_disj)
qed

lemma handle_credentials_complete:
  fixes w :: "'m world" and tmp :: string and m :: message
  assumes "cred_dir \<noteq> []" and "decode_credentials (msg_data m) = Inr p"
    and "cp_certificate p \<noteq> []" and "cp_private_key p \<noteq> []" and "cp_root_ca p \<noteq> []"
  defines "w' \<equiv> handle_credentials cred_dir tmp m w"
  shows "(\<exists>file e. wd_log w' = wd_log w @ [LogWriteFailed (msg_thing m) file e]) \<or>
    (wd_log w' = wd_log w @ [LogSaved (msg_thing m) cred_dir] \<and>
     (\<forall>(q, data, perm) \<in> {(''secure_tunnel.crt'', cp_certificate p, 420),
         (''secure_tunnel.key'', cp_private_key p, 384), (''root_ca.crt'', cp_root_ca p, 420)}.
        content (wd_fs w') (filepath_join cred_dir q) = Some (data @ [CHR 0x0A]) \<and>
        perm_of (wd_fs w') (filepath_join cred_dir q) =
          Some (case perm_of (wd_fs w) (filepath_join cred_dir q) of
                  Some old \<Rightarrow> old | None \<Rightarrow> masked (wd_fs w) perm)))"
proof -
  note dec = assms(2) and full = assms(3-5)
  obtain r s' where wr: "write_credentials cred_dir p (wd_fs w) = (r, s')" by force
  show ?thesis
  proof (cases r)
    case (Some fe)
    then show ?thesis
      using full assms(1) wr by (cases fe) (simp add: w'_def handle_credentials_def dec)
  next
    case None
    have ok: "fst (write_files write_file (credential_files cred_dir p) (wd_fs w)) = None"
      and s': "s' = snd (write_files write_file (credential_files cred_dir p) (wd_fs w))"
      using wr None write_credentials_files [of cred_dir p "wd_fs w"] by simp_all
    have w': "wd_fs w' = s'" "wd_log w' = wd_log w @ [LogSaved (msg_thing m) cred_dir]"
      using full assms(1) wr None by (simp_all add: w'_def handle_credentials_def dec)
    note files = files.write_files_ok [OF ok credential_paths_distinct [OF assms(1)], folded s']
    have mem: "(filepath_join cred_dir ''secure_tunnel.crt'', line (cp_certificate p), 420)
          \<in> set (credential_files cred_dir p)"
        "(filepath_join cred_dir ''secure_tunnel.key'', line (cp_private_key p), 384)
          \<in> set (credential_files cred_dir p)"
        "(filepath_join cred_dir ''root_ca.crt'', line (cp_root_ca p), 420)
          \<in> set (credential_files cred_dir p)"
      by (simp_all add: credential_files_def)
    show ?thesis
      using w' files [OF mem(1)] files [OF mem(2)] files [OF mem(3)] by (simp add: line_def)
  qed
qed



definition demo_credentials :: message where
  "demo_credentials =
     \<lparr>msg_topic = credentials_topic,
      msg_data = Some (JObj [(''certificate'', JStr ''crt''), (''private_key'', JStr ''key''),
                             (''root_ca'', JStr ''ca'')]),
      msg_time = 0, msg_thing = ''dev''\<rparr>"

definition demo_world :: "unit world" where
  "demo_world =
     \<lparr>wd_log = [],
      wd_fs = \<lparr>fs_nodes = [[''c''] \<mapsto> Dir 493], fs_cwd = [], fs_umask = 18,
               fs_denied = (\<lambda>k. False), fs_nospace = (\<lambda>k. False)\<rparr>,
      wd_tunnel = ()\<rparr>"

lemma demo_credentials_decode:
  "decode_credentials (msg_data demo_credentials) =
     Inr \<lparr>cp_certificate = ''crt'', cp_private_key = ''key'', cp_root_ca = ''ca''\<rparr>"
  by (simp add: decode_credentials_def demo_credentials_def decode_struct_def
      set_credentials_field_def decode_string_def)

lemma demo_credentials_paths:
  "filepath_join ''/c'' ''secure_tunnel.crt'' = ''/c/secure_tunnel.crt''"
  "filepath_join ''/c'' ''secure_tunnel.key'' = ''/c/secure_tunnel.key''"
  "filepath_join ''/c'' ''root_ca.crt'' = ''/c/root_ca.crt''"
  by (simp_all add: filepath_join_def path_clean_def rooted_def has_prefix_def)

lemma demo_credentials_saved:
  "wd_log (handle_credentials ''/c'' tmp demo_credentials demo_world) = [LogSaved ''dev'' ''/c'']"
  by (simp add: handle_credentials_def demo_credentials_decode write_credentials_def
      demo_credentials_paths write_file_def demo_world_def resolve_def rooted_def has_prefix_def
      is_dir_def Let_def, simp add: demo_credentials_def)


lemma ssh_remote_inj:
  "ssh_remote p = ssh_remote q \<longleftrightarrow>
     tp_server_port p = tp_server_port q \<and> tp_client_port p = tp_client_port q"
  by (simp add: ssh_remote_def append_sep_inj itoa_no_colon itoa_inj)

lemma decode_tunnel_fits:
  assumes "decode_tunnel doc = Inr p"
  shows "fits_int (tp_server_port p) \<and> fits_int (tp_client_port p)"
  by (rule decode_struct_keeps [where P = "\<lambda>p. fits_int (tp_server_port p) \<and> fits_int (tp_client_port p)",
        OF _ assms [unfolded decode_tunnel_def]])
    (auto simp: set_tunnel_field_def and_then_Inr_iff split: if_splits dest: decode_int_fits)

lemma decode_tunnel_ports:
  "decode_tunnel (Some (JObj [(''server'', JStr s), (''server_port'', JInt a), (''client_port'', JInt b)])) =
     (if fits_int a then
        if fits_int b then Inr \<lparr>tp_server = s, tp_server_port = a, tp_client_port = b\<rparr>
        else Inl (JTypeMismatch ''client_port'')
      else Inl (JTypeMismatch ''server_port''))"
  by (simp add: decode_tunnel_def decode_struct_def set_tunnel_field_def decode_string_def decode_int_def)


definition demo_panicking_tunnel :: "unit remote_ops" where
  "demo_panicking_tunnel =
     \<lparr>ro_set_server = (\<lambda>_. id), ro_add_remote = (\<lambda>_. id),
      ro_restart = (\<lambda>_. (Panics ''nil map'', ()))\<rparr>"

definition demo_tunnel_message :: message where
  "demo_tunnel_message =
     \<lparr>msg_topic = tunnels_topic,
      msg_data = Some (JObj [(''server'', JStr ''s''), (''server_port'', JInt 22),
                             (''client_port'', JInt 22)]),
      msg_time = 0, msg_thing = ''dev''\<rparr>"

lemma demo_tunnel_panics: "panics (fst (handle_tunnels demo_panicking_tunnel demo_tunnel_message w))"
  by (simp add: handle_tunnels_def demo_tunnel_message_def demo_panicking_tunnel_def
      decode_tunnel_def decode_struct_def set_tunnel_field_def decode_string_def decode_int_def
      Let_def)

theorem consumer_survives_panics_witness:
  "\<exists>a b. wd_log (consume demo_panicking_tunnel ''/c'' tunnels_topic TunnelsSub
       [([], demo_tunnel_message), ([], demo_tunnel_message)] demo_world) = [a, b] \<and>
     (\<exists>e. a = LogPanic tunnels_topic e) \<and> (\<exists>e. b = LogPanic tunnels_topic e)"
proof -
  obtain es where "wd_log (consume demo_panicking_tunnel ''/c'' tunnels_topic TunnelsSub
       [([], demo_tunnel_message), ([], demo_tunnel_message)] demo_world) = es"
    and "length es = 2"
    and "\<forall>i < 2. \<exists>e. es ! i = LogPanic tunnels_topic e"
    using consumer_survives_panics [of demo_panicking_tunnel "''/c''" tunnels_topic TunnelsSub
        "[([], demo_tunnel_message), ([], demo_tunnel_message)]" demo_world]
    by (auto simp: handle_message_def demo_tunnel_panics demo_world_def less_2_cases_iff nth_Cons')
  then show ?thesis by (cases es rule: remdups_adj.cases) (auto simp: less_2_cases_iff)
qed

end
