(* ===== verification/Config.thy ===== *)
theory Config
  imports Go_Os
begin

text \<open>
  \<open>internal/config/config.go\<close>: the daemon's configuration.

  \<open>config.DeviceName\<close> is a package variable, so \<open>load_config\<close> takes and returns its value;
  the YAML parser is third-party code and the argument \<open>unyaml\<close>; the environment is a
  function from variable names to values, with the empty string for an unset variable, as
  \<open>os.Getenv\<close> reports it.
\<close>

section \<open>Data\<close>

record tls_config =
  tls_ca :: string
  tls_key :: string
  tls_cert :: string

record tunnel_config =
  tc_server :: string
  tc_ca :: string
  tc_key :: string
  tc_cert :: string

record nats_server_config =
  nc_url :: "string option"
  nc_hostname :: string
  nc_port :: string
  nc_tls_enabled :: bool
  nc_ca :: string
  nc_key :: string
  nc_cert :: string

record config =
  cfg_device :: string
  cfg_data :: string
  cfg_nats :: "nats_server_config option"
  cfg_tunnel :: "tunnel_config option"
  cfg_tls :: "tls_config option"

type_synonym env = "string \<Rightarrow> string"

datatype nats_option = NatsTimeout int | RootCAs string | ClientCert string string

section \<open>Operations\<close>

definition default_nats_url :: string where
  "default_nats_url = ''tls://52.7.199.211:4222''"

definition default_tunnel_addr :: string where
  "default_tunnel_addr = ''52.7.199.211''"

definition tunnel_addr :: "env \<Rightarrow> string" where
  "tunnel_addr env =
     (if env ''TESSA_TUNNEL_SERVER_ADDR'' \<noteq> [] then env ''TESSA_TUNNEL_SERVER_ADDR''
      else default_tunnel_addr)"

definition nats_url :: "env \<Rightarrow> string" where
  "nats_url env =
     (if env ''TESSA_NATS_URL'' \<noteq> [] then env ''TESSA_NATS_URL'' else default_nats_url)"

definition load_config ::
  "(string \<Rightarrow> config result) \<Rightarrow> env \<Rightarrow> fs \<Rightarrow> string \<Rightarrow> string \<Rightarrow> config result \<times> string" where
  "load_config unyaml env s cfg_file device_name =
     (case read_file s cfg_file of
        Inl e \<Rightarrow> (Inl e, device_name)
      | Inr text \<Rightarrow>
          (case unyaml text of
             Inl e \<Rightarrow> (Inl e, device_name)
           | Inr c \<Rightarrow>
               if cfg_device c = [] then (Inl (Error ''device name was not set''), device_name)
               else
                 (case cfg_tls c of
                    None \<Rightarrow> (Inl (Error ''TLS credentials not found''), cfg_device c)
                  | Some tls \<Rightarrow>
                      (Inr (c\<lparr>cfg_tunnel := Some
                          \<lparr>tc_server = tunnel_addr env, tc_ca = tls_ca tls,
                           tc_key = tls_key tls, tc_cert = tls_cert tls\<rparr>\<rparr>),
                       cfg_device c))))"

text \<open>\<open>NatsOptions\<close> dereferences \<open>c.TLS\<close> for a \<open>tls://\<close> URL; the timeout is in seconds.\<close>

definition nats_options :: "env \<Rightarrow> config \<Rightarrow> nats_option list outcome" where
  "nats_options env c =
     (if has_prefix (nats_url env) ''tls://'' then
        (case cfg_tls c of
           None \<Rightarrow> Panics ''nil pointer dereference''
         | Some tls \<Rightarrow>
             Returns [NatsTimeout 30, RootCAs (tls_ca tls), ClientCert (tls_cert tls) (tls_key tls)])
      else Returns [NatsTimeout 30])"

section \<open>Lemmas\<close>

lemma load_config_Inr_iff:
  "fst (load_config unyaml env s f g) = Inr c \<longleftrightarrow>
     (\<exists>text c0 tls. read_file s f = Inr text \<and> unyaml text = Inr c0 \<and> cfg_device c0 \<noteq> [] \<and>
        cfg_tls c0 = Some tls \<and>
        c = c0\<lparr>cfg_tunnel := Some \<lparr>tc_server = tunnel_addr env, tc_ca = tls_ca tls,
                 tc_key = tls_key tls, tc_cert = tls_cert tls\<rparr>\<rparr>)"
  by (auto simp: load_config_def split: sum.splits option.splits)

lemma load_config_global:
  "fst (load_config unyaml env s f g) = Inr c \<Longrightarrow> snd (load_config unyaml env s f g) = cfg_device c"
  by (auto simp: load_config_def split: sum.splits option.splits if_splits)

section \<open>Properties\<close>

text \<open>
  C17.  A configuration that \<open>LoadConfig\<close> returns is complete: it has a device name, which the
  package variable now holds, TLS credentials, and a tunnel configuration built from those
  credentials and the environment.  \<open>NatsOptions\<close> never panics on it, and for a \<open>tls://\<close>
  server the connection uses exactly the configured CA and client certificate.
\<close>

theorem load_config_complete:
  assumes "fst (load_config unyaml env s f g) = Inr c"
  shows "cfg_device c \<noteq> [] \<and> snd (load_config unyaml env s f g) = cfg_device c \<and>
    (\<exists>tls. cfg_tls c = Some tls \<and>
      cfg_tunnel c = Some \<lparr>tc_server = tunnel_addr env, tc_ca = tls_ca tls,
                           tc_key = tls_key tls, tc_cert = tls_cert tls\<rparr> \<and>
      nats_options env c = Returns
        (NatsTimeout 30 #
         (if has_prefix (nats_url env) ''tls://''
          then [RootCAs (tls_ca tls), ClientCert (tls_cert tls) (tls_key tls)] else [])))"
  using assms load_config_global [OF assms] unfolding load_config_Inr_iff
  by (auto simp: nats_options_def)

definition demo_config :: config where
  "demo_config = \<lparr>cfg_device = ''rpi3'', cfg_data = ''/d'', cfg_nats = None, cfg_tunnel = None,
     cfg_tls = Some \<lparr>tls_ca = ''/d/ca'', tls_key = ''/d/key'', tls_cert = ''/d/crt''\<rparr>\<rparr>"

definition demo_config_fs :: fs where
  "demo_config_fs = \<lparr>fs_nodes = (\<lambda>k. None)([''d''] \<mapsto> Dir 493, [''d'', ''c.yaml''] \<mapsto> File ''yaml'' 384),
     fs_cwd = [], fs_umask = 18, fs_denied = (\<lambda>k. False), fs_nospace = (\<lambda>k. False)\<rparr>"

lemma demo_load:
  "load_config (\<lambda>_. Inr demo_config) (\<lambda>_. []) demo_config_fs ''/d/c.yaml'' [] =
    (Inr (demo_config\<lparr>cfg_tunnel := Some \<lparr>tc_server = ''52.7.199.211'', tc_ca = ''/d/ca'',
        tc_key = ''/d/key'', tc_cert = ''/d/crt''\<rparr>\<rparr>), ''rpi3'')"
  by (simp add: load_config_def read_file_def demo_config_fs_def demo_config_def resolve_def
      rooted_def has_prefix_def tunnel_addr_def default_tunnel_addr_def)

theorem load_config_complete_witness:
  "nats_options (\<lambda>_. []) (demo_config\<lparr>cfg_tunnel := Some \<lparr>tc_server = ''52.7.199.211'',
      tc_ca = ''/d/ca'', tc_key = ''/d/key'', tc_cert = ''/d/crt''\<rparr>\<rparr>) =
   Returns [NatsTimeout 30, RootCAs ''/d/ca'', ClientCert ''/d/crt'' ''/d/key'']"
  using load_config_complete [of "\<lambda>_. Inr demo_config" "\<lambda>_. []" demo_config_fs "''/d/c.yaml''" "[]"]
  by (simp add: demo_load)
    (simp add: demo_config_def nats_url_def default_nats_url_def has_prefix_def tunnel_addr_def
      default_tunnel_addr_def)

end
