(* ===== verification/Store.thy ===== *)
theory Store
  imports Prelude
begin

text \<open>
  The thread-safe store of a third-party package (\<open>pocketbase/tools/store\<close>) that the tunnel
  manager keeps its proxies in and the command manager its commands.  The package is not part
  of the repository: its operations are a parameter, a record of functions over an unknown
  state type, and the locale \<open>kv_store\<close> states what its documentation promises, namely that
  it is a map.  \<open>alist_store\<close> is a store over association lists that keeps the promise.

  \<open>st_all\<close> enumerates \<open>GetAll\<close>, a Go map, in one of the orders Go's iteration may choose.
\<close>

record ('st, 'k, 'v) store_ops =
  st_new :: 'st
  st_set :: "'k \<Rightarrow> 'v \<Rightarrow> 'st \<Rightarrow> 'st"
  st_remove :: "'k \<Rightarrow> 'st \<Rightarrow> 'st"
  st_get :: "'st \<Rightarrow> 'k \<Rightarrow> 'v option"
  st_has :: "'st \<Rightarrow> 'k \<Rightarrow> bool"
  st_all :: "'st \<Rightarrow> ('k \<times> 'v) list"
  st_length :: "'st \<Rightarrow> nat"

locale kv_store =
  fixes S :: "('st, 'k, 'v) store_ops"
  assumes get_new: "st_get S (st_new S) k = None"
    and get_set: "st_get S (st_set S k v st) = (st_get S st)(k \<mapsto> v)"
    and get_remove: "st_get S (st_remove S k st) = (st_get S st)(k := None)"
    and has_iff: "st_has S st k \<longleftrightarrow> st_get S st k \<noteq> None"
    and all_keys: "keys_distinct (st_all S st)"
    and all_get: "map_of (st_all S st) = st_get S st"
    and length_all: "st_length S st = length (st_all S st)"
begin

lemmas store_simps = get_new get_set get_remove has_iff

lemma in_all_iff: "(k, v) \<in> set (st_all S st) \<longleftrightarrow> st_get S st k = Some v"
  by (simp add: set_alist_iff [OF all_keys] all_get)

lemma length_0_iff: "st_length S st = 0 \<longleftrightarrow> st_get S st = Map.empty"
  using empty_iff_map_of [of "st_all S st"] by (simp add: length_all all_get)

lemma length_pos_iff: "0 < st_length S st \<longleftrightarrow> (\<exists>k v. st_get S st k = Some v)"
  using length_0_iff [of st] by (auto simp: fun_eq_iff)

lemma length_set_pos: "0 < st_length S (st_set S k v st)"
  unfolding length_pos_iff by (rule exI [of _ k]) (simp add: get_set)

lemma values_all: "snd ` set (st_all S st) = ran (st_get S st)"
  by (force simp: ran_def in_all_iff [symmetric])

end

definition alist_store :: "(('k \<times> 'v) list, 'k, 'v) store_ops" where
  "alist_store =
     \<lparr>st_new = [], st_set = AList.update, st_remove = AList.delete, st_get = map_of,
      st_has = (\<lambda>kvs k. map_of kvs k \<noteq> None),
      st_all = AList.clearjunk, st_length = (\<lambda>kvs. length (AList.clearjunk kvs))\<rparr>"

interpretation alist: kv_store "alist_store :: (('k \<times> 'v) list, 'k, 'v) store_ops"
  by unfold_locales
    (simp_all add: alist_store_def keys_distinct_def distinct_clearjunk map_of_clearjunk)

end
