(* ===== verification/Tunnel.thy ===== *)
theory Tunnel
  imports Store Config
begin

text \<open>
  \<open>internal/tunnel\<close>: the FRP client (\<open>frpc.go\<close>) and the manager of its proxies
  (\<open>manager.go\<close>).

  The FRP library is third-party: the functions the code calls are the record \<open>frp_ops\<close> over
  an unknown service state, and \<open>frp_service\<close> states that a successful
  \<open>UpdateAllConfigurer\<close> makes the given proxies the service's proxies.  The proxy map is a
  store (\<open>kv_store\<close>).

  \<open>Manager\<close> is the record \<open>manager\<close>.  A context made by \<open>context.WithCancel\<close> is an index
  into \<open>mg_ctxs\<close>, which tells whether it was cancelled; \<open>mg_cancel\<close> is the field \<open>cancel\<close>
  (the cancel function of that context, or nil); \<open>mg_live\<close> lists the contexts whose
  \<open>frpc.Run\<close> goroutine has not returned.  The manager has no lock: \<open>run_exit\<close> is the tail of
  that goroutine, and \<open>manager_step\<close> interleaves it with the operations.
\<close>

section \<open>The FRP client\<close>

record frp_config =
  fc_server_addr :: string
  fc_server_port :: nat
  fc_protocol :: string
  fc_tls_enable :: bool
  fc_cert_file :: string
  fc_key_file :: string
  fc_trusted_ca :: string

record proxy_config =
  px_type :: string
  px_name :: string
  px_local_ip :: string
  px_local_port :: int
  px_domains :: "string list"
  px_multiplexer :: string

record 'f frp_ops =
  frp_complete :: "frp_config \<Rightarrow> frp_config result"
  frp_validate :: "frp_config \<Rightarrow> error option"
  frp_new :: "frp_config \<Rightarrow> 'f result"
  frp_update :: "proxy_config list \<Rightarrow> 'f \<Rightarrow> error option \<times> 'f"
  frp_close :: "'f \<Rightarrow> 'f"

definition client_config :: "tunnel_config \<Rightarrow> frp_config" where
  "client_config conf =
     \<lparr>fc_server_addr = ''52.7.199.211'', fc_server_port = 7000, fc_protocol = ''tcp'',
      fc_tls_enable = True, fc_cert_file = tc_cert conf, fc_key_file = tc_key conf,
      fc_trusted_ca = tc_ca conf\<rparr>"

definition new_service :: "'f frp_ops \<Rightarrow> tunnel_config \<Rightarrow> 'f result" where
  "new_service F conf =
     and_then (frp_complete F (client_config conf)) (\<lambda>c.
       (case frp_validate F c of Some e \<Rightarrow> Inl e | None \<Rightarrow> frp_new F c))"

section \<open>The manager\<close>

record ('st, 'f) manager =
  mg_device :: string
  mg_frpc :: 'f
  mg_proxies :: 'st
  mg_cancel :: "nat option"
  mg_ctxs :: "bool list"
  mg_live :: "nat list"

type_synonym 'st proxy_store = "('st, string, proxy_config) store_ops"

definition new_manager ::
  "'st proxy_store \<Rightarrow> 'f frp_ops \<Rightarrow> string \<Rightarrow> tunnel_config \<Rightarrow> ('st, 'f) manager result" where
  "new_manager S F device conf =
     and_then (new_service F conf) (\<lambda>frpc.
       Inr \<lparr>mg_device = device, mg_frpc = frpc, mg_proxies = st_new S, mg_cancel = None,
            mg_ctxs = [], mg_live = []\<rparr>)"

definition proxy_key :: "string \<Rightarrow> int \<Rightarrow> string" where
  "proxy_key ip port = join_host_port ip (itoa port)"

definition ssh_proxy :: "string \<Rightarrow> string \<Rightarrow> int \<Rightarrow> proxy_config" where
  "ssh_proxy device ip port =
     \<lparr>px_type = ''tcpmux'', px_name = device, px_local_ip = ip, px_local_port = port,
      px_domains = [device], px_multiplexer = ''httpconnect''\<rparr>"

text \<open>\<open>update\<close> in its three parts: the closure \<open>reload\<close>, the start of a run, \<open>m.cancel = cancel\<close>.\<close>

definition reload ::
  "'st proxy_store \<Rightarrow> 'f frp_ops \<Rightarrow> ('st, 'f) manager \<Rightarrow> error option \<times> ('st, 'f) manager" where
  "reload S F m =
     (let (e, f) = frp_update F (map snd (st_all S (mg_proxies m))) (mg_frpc m)
      in (e, m\<lparr>mg_frpc := f\<rparr>))"

definition spawn_run :: "('st, 'f) manager \<Rightarrow> nat \<times> ('st, 'f) manager" where
  "spawn_run m =
     (let i = length (mg_ctxs m)
      in (i, m\<lparr>mg_ctxs := mg_ctxs m @ [False], mg_live := mg_live m @ [i]\<rparr>))"

definition commit_run :: "nat \<Rightarrow> ('st, 'f) manager \<Rightarrow> ('st, 'f) manager" where
  "commit_run i m = m\<lparr>mg_cancel := Some i\<rparr>"

definition stop :: "'f frp_ops \<Rightarrow> ('st, 'f) manager \<Rightarrow> ('st, 'f) manager" where
  "stop F m =
     (case mg_cancel m of
        None \<Rightarrow> m
      | Some i \<Rightarrow> m\<lparr>mg_frpc := frp_close F (mg_frpc m), mg_ctxs := (mg_ctxs m)[i := True],
                    mg_cancel := None\<rparr>)"

definition update ::
  "'st proxy_store \<Rightarrow> 'f frp_ops \<Rightarrow> ('st, 'f) manager \<Rightarrow> error option \<times> ('st, 'f) manager" where
  "update S F m =
     (if mg_cancel m = None then
        (if st_length S (mg_proxies m) > 0 then
           (let (i, m1) = spawn_run m in reload S F (commit_run i m1))
         else (None, m))
      else if st_length S (mg_proxies m) = 0 then (None, stop F m)
      else reload S F m)"

text \<open>The error of \<open>update\<close> is only logged; it is returned here as the logged value.\<close>

definition proxy_ssh ::
  "'st proxy_store \<Rightarrow> 'f frp_ops \<Rightarrow> string \<Rightarrow> int \<Rightarrow> ('st, 'f) manager \<Rightarrow>
   error option \<times> ('st, 'f) manager" where
  "proxy_ssh S F ip port m =
     update S F (m\<lparr>mg_proxies := st_set S (proxy_key ip port) (ssh_proxy (mg_device m) ip port)
                                    (mg_proxies m)\<rparr>)"

definition un_proxy ::
  "'st proxy_store \<Rightarrow> 'f frp_ops \<Rightarrow> string \<Rightarrow> int \<Rightarrow> ('st, 'f) manager \<Rightarrow>
   error option \<times> ('st, 'f) manager" where
  "un_proxy S F ip port m =
     update S F (m\<lparr>mg_proxies := st_remove S (proxy_key ip port) (mg_proxies m)\<rparr>)"

text \<open>The goroutine of run \<open>i\<close> returns from \<open>frpc.Run\<close>, with or without an error.\<close>

definition run_exit :: "nat \<Rightarrow> error option \<Rightarrow> ('st, 'f) manager \<Rightarrow> ('st, 'f) manager" where
  "run_exit i err m =
     (let m1 = m\<lparr>mg_live := removeAll i (mg_live m)\<rparr>
      in case err of
           None \<Rightarrow> m1
         | Some _ \<Rightarrow> m1\<lparr>mg_ctxs := (mg_ctxs m1)[i := True], mg_cancel := None\<rparr>)"

lemma proxy_key_inj: "proxy_key ip p = proxy_key ip q \<longleftrightarrow> p = q"
  by (simp add: proxy_key_def join_host_port_inj itoa_inj)

section \<open>Interleavings\<close>

text \<open>
  What can happen to a manager between operations: calls from the command goroutines and the
  shutdown path, and the exit of any run goroutine that is still live.
\<close>

datatype mgr_event = EvProxy string int | EvUnProxy string int | EvStop | EvExit nat "error option"

inductive manager_step ::
  "'st proxy_store \<Rightarrow> 'f frp_ops \<Rightarrow> ('st, 'f) manager \<Rightarrow> mgr_event \<Rightarrow> ('st, 'f) manager \<Rightarrow> bool"
  for S :: "'st proxy_store" and F :: "'f frp_ops" where
  proxy: "manager_step S F m (EvProxy ip port) (snd (proxy_ssh S F ip port m))"
| unproxy: "manager_step S F m (EvUnProxy ip port) (snd (un_proxy S F ip port m))"
| stop: "manager_step S F m EvStop (stop F m)"
| exit: "i \<in> set (mg_live m) \<Longrightarrow> manager_step S F m (EvExit i err) (run_exit i err m)"

inductive_cases manager_stepE: "manager_step S F m ev m'"

text \<open>
  The error exit of a run that is no longer the current one while another run is current: a
  run that was stopped, or never logged in, and returns its error late.
\<close>

fun stale_exit :: "('st, 'f) manager \<Rightarrow> mgr_event \<Rightarrow> bool" where
  "stale_exit m (EvExit i (Some e)) = (mg_cancel m \<noteq> None \<and> mg_cancel m \<noteq> Some i)"
| "stale_exit m _ = False"

inductive manager_reach ::
  "'st proxy_store \<Rightarrow> 'f frp_ops \<Rightarrow> ('st, 'f) manager \<Rightarrow> ('st, 'f) manager \<Rightarrow> bool"
  for S :: "'st proxy_store" and F :: "'f frp_ops" and m0 :: "('st, 'f) manager" where
  refl: "manager_reach S F m0 m0"
| step: "manager_reach S F m0 m \<Longrightarrow> manager_step S F m ev m' \<Longrightarrow> \<not> stale_exit m ev \<Longrightarrow>
    manager_reach S F m0 m'"

text \<open>
  The current run's context is live; every live run that was not cancelled is the current one;
  a manager with a current run has something to serve.
\<close>

definition run_uncancelled :: "('st, 'f) manager \<Rightarrow> nat \<Rightarrow> bool" where
  "run_uncancelled m i \<longleftrightarrow> i \<in> set (mg_live m) \<and> \<not> mg_ctxs m ! i"

definition mgr_inv :: "'st proxy_store \<Rightarrow> ('st, 'f) manager \<Rightarrow> bool" where
  "mgr_inv S m \<longleftrightarrow>
     (\<forall>i. mg_cancel m = Some i \<longrightarrow> i < length (mg_ctxs m) \<and> \<not> mg_ctxs m ! i) \<and>
     (\<forall>i \<in> set (mg_live m). i < length (mg_ctxs m) \<and> (mg_ctxs m ! i \<or> mg_cancel m = Some i)) \<and>
     (mg_cancel m \<noteq> None \<longrightarrow> st_length S (mg_proxies m) > 0)"

lemma reload_sel [simp]:
  "mg_cancel (snd (reload S F m)) = mg_cancel m" "mg_ctxs (snd (reload S F m)) = mg_ctxs m"
  "mg_live (snd (reload S F m)) = mg_live m" "mg_proxies (snd (reload S F m)) = mg_proxies m"
  "mg_device (snd (reload S F m)) = mg_device m"
  by (simp_all add: reload_def split_beta)

lemma stop_sel [simp]:
  "mg_cancel (stop F m) = None" "mg_live (stop F m) = mg_live m"
  "mg_proxies (stop F m) = mg_proxies m" "mg_device (stop F m) = mg_device m"
  by (simp_all add: stop_def split: option.splits)

lemma stop_inv: "mgr_inv S m \<Longrightarrow> mgr_inv S (stop F m)"
  by (cases "mg_cancel m") (auto simp: mgr_inv_def stop_def nth_list_update_if)

lemma start_inv:
  assumes "\<forall>i \<in> set (mg_live m). i < length (mg_ctxs m) \<and> mg_ctxs m ! i"
    and "st_length S (mg_proxies m) > 0" and "spawn_run m = (i, m1)"
  shows "mgr_inv S (commit_run i m1)"
  using assms
  by (auto simp: mgr_inv_def spawn_run_def commit_run_def Let_def nth_append less_Suc_eq)

text \<open>\<open>update\<close> keeps the invariant, whatever the caller did to the proxy store before it.\<close>

lemma update_inv:
  assumes "mgr_inv S m"
  shows "mgr_inv S (snd (update S F (m\<lparr>mg_proxies := st\<rparr>)))"
proof -
  let ?m = "m\<lparr>mg_proxies := st\<rparr>"
  consider (start) "mg_cancel m = None" "st_length S st > 0"
    | (idle) "mg_cancel m = None" "st_length S st = 0"
    | (halt) i where "mg_cancel m = Some i" "st_length S st = 0"
    | (reload) i where "mg_cancel m = Some i" "st_length S st > 0"
    by (cases "mg_cancel m") auto
  then show ?thesis
  proof cases
    case start
    obtain i m1 where sp: "spawn_run ?m = (i, m1)" by force
    have "mgr_inv S (commit_run i m1)"
      by (rule start_inv [OF _ _ sp]) (use assms start in \<open>auto simp: mgr_inv_def\<close>)
    then show ?thesis using start sp by (simp add: update_def mgr_inv_def)
  next
    case idle
    then show ?thesis using assms by (simp add: update_def mgr_inv_def)
  next
    case halt
    then show ?thesis
      using assms by (auto simp: update_def mgr_inv_def stop_def nth_list_update_if)
  next
    case reload
    then show ?thesis using assms by (simp add: update_def mgr_inv_def)
  qed
qed

lemma run_exit_inv:
  assumes "mgr_inv S m" and "i \<in> set (mg_live m)" and "\<not> stale_exit m (EvExit i err)"
  shows "mgr_inv S (run_exit i err m)"
  using assms
  by (cases err) (auto simp: mgr_inv_def run_exit_def Let_def nth_list_update_if)

lemma manager_step_inv:
  "manager_step S F m ev m' \<Longrightarrow> \<not> stale_exit m ev \<Longrightarrow> mgr_inv S m \<Longrightarrow> mgr_inv S m'"
  by (induction rule: manager_step.induct)
    (auto simp: proxy_ssh_def un_proxy_def intro: update_inv stop_inv run_exit_inv)

lemma manager_reach_inv: "manager_reach S F m0 m \<Longrightarrow> mgr_inv S m0 \<Longrightarrow> mgr_inv S m"
  by (induction rule: manager_reach.induct) (auto intro: manager_step_inv)

lemma new_manager_inv: "new_manager S F device conf = Inr m \<Longrightarrow> mgr_inv S m"
  by (auto simp: new_manager_def outcome_simps mgr_inv_def)

section \<open>What the libraries promise\<close>

locale frp_service =
  fixes F :: "'f frp_ops"
    and served :: "'f \<Rightarrow> proxy_config list"
  assumes update_serves:
    "fst (frp_update F cfgs f) = None \<Longrightarrow> served (snd (frp_update F cfgs f)) = cfgs"

locale tunnel_libs = kv_store S + frp_service F served
  for S :: "('st, string, proxy_config) store_ops" and F :: "'f frp_ops"
    and served :: "'f \<Rightarrow> proxy_config list"
begin

abbreviation exposed :: "('st, 'f) manager \<Rightarrow> string \<Rightarrow> proxy_config option" where
  "exposed m \<equiv> st_get S (mg_proxies m)"

lemma reload_serves:
  "fst (reload S F m) = None \<Longrightarrow>
     set (served (mg_frpc (snd (reload S F m)))) = ran (exposed m)"
  using update_serves [of "map snd (st_all S (mg_proxies m))" "mg_frpc m"]
  by (simp add: reload_def split_beta values_all)

lemma update_proxies [simp]: "mg_proxies (snd (update S F m)) = mg_proxies m"
  by (auto simp: update_def spawn_run_def commit_run_def Let_def)

lemma update_device [simp]: "mg_device (snd (update S F m)) = mg_device m"
  by (auto simp: update_def spawn_run_def commit_run_def Let_def)

lemma update_busy:
  assumes "exposed m k = Some v"
  shows "mg_cancel (snd (update S F m)) \<noteq> None"
    and "fst (update S F m) = None \<Longrightarrow>
         set (served (mg_frpc (snd (update S F m)))) = ran (exposed m)"
proof -
  have pos: "st_length S (mg_proxies m) > 0" using assms length_pos_iff by blast
  show "mg_cancel (snd (update S F m)) \<noteq> None"
    using pos by (auto simp: update_def spawn_run_def commit_run_def Let_def)
  assume ok: "fst (update S F m) = None"
  show "set (served (mg_frpc (snd (update S F m)))) = ran (exposed m)"
  proof (cases "mg_cancel m")
    case None
    obtain i m1 where sp: "spawn_run m = (i, m1)" by force
    then have "mg_proxies (commit_run i m1) = mg_proxies m"
      by (auto simp: spawn_run_def commit_run_def Let_def)
    with reload_serves [of "commit_run i m1"] None pos ok sp show ?thesis by (simp add: update_def)
  next
    case (Some i)
    with reload_serves [of m] pos ok show ?thesis by (simp add: update_def)
  qed
qed

lemma update_idle:
  assumes "exposed m = Map.empty"
  shows "mg_cancel (snd (update S F m)) = None"
proof -
  have "st_length S (mg_proxies m) = 0" using assms length_0_iff by blast
  then show ?thesis by (simp add: update_def)
qed

lemma proxy_ssh_exposed:
  "exposed (snd (proxy_ssh S F ip port m)) =
     (exposed m)(proxy_key ip port \<mapsto> ssh_proxy (mg_device m) ip port)"
  by (simp add: proxy_ssh_def get_set)

lemma un_proxy_exposed:
  "exposed (snd (un_proxy S F ip port m)) = (exposed m)(proxy_key ip port := None)"
  by (simp add: un_proxy_def get_remove)

lemma proxy_ssh_runs: "mg_cancel (snd (proxy_ssh S F ip port m)) \<noteq> None"
  unfolding proxy_ssh_def
  by (rule update_busy(1) [where k = "proxy_key ip port" and v = "ssh_proxy (mg_device m) ip port"])
    (simp add: get_set)

lemma proxy_ssh_serves:
  assumes "fst (proxy_ssh S F ip port m) = None"
  shows "set (served (mg_frpc (snd (proxy_ssh S F ip port m)))) =
    ran (exposed (snd (proxy_ssh S F ip port m)))"
  using assms update_busy(2) [of "m\<lparr>mg_proxies := st_set S (proxy_key ip port)
      (ssh_proxy (mg_device m) ip port) (mg_proxies m)\<rparr>" "proxy_key ip port"]
  by (simp add: proxy_ssh_def get_set)

lemma un_proxy_cancel:
  "mg_cancel (snd (un_proxy S F ip port m)) = None \<longleftrightarrow>
     (exposed m)(proxy_key ip port := None) = Map.empty"
proof (cases "(exposed m)(proxy_key ip port := None) = Map.empty")
  case True
  then show ?thesis unfolding un_proxy_def by (simp add: update_idle get_remove)
next
  case False
  then obtain k v where "((exposed m)(proxy_key ip port := None)) k = Some v"
    by (auto simp: fun_eq_iff)
  then have "mg_cancel (snd (un_proxy S F ip port m)) \<noteq> None"
    unfolding un_proxy_def by (intro update_busy(1)) (simp add: get_remove)
  with False show ?thesis by blast
qed

end

text \<open>A service that remembers its proxies, over the association-list store.\<close>

definition listing_frp :: "proxy_config list frp_ops" where
  "listing_frp =
     \<lparr>frp_complete = Inr, frp_validate = (\<lambda>_. None), frp_new = (\<lambda>_. Inr []),
      frp_update = (\<lambda>cfgs _. (None, cfgs)), frp_close = (\<lambda>_. [])\<rparr>"

abbreviation proxy_alist :: "(string \<times> proxy_config) list proxy_store" where
  "proxy_alist \<equiv> alist_store"

interpretation listing: tunnel_libs proxy_alist listing_frp "\<lambda>f. f"
  by unfold_locales (simp add: listing_frp_def)

section \<open>Properties\<close>

definition demo_tunnel_conf :: tunnel_config where
  "demo_tunnel_conf = \<lparr>tc_server = ''t.example'', tc_ca = ''ca'', tc_key = ''k'', tc_cert = ''c''\<rparr>"

definition demo_manager :: "((string \<times> proxy_config) list, proxy_config list) manager" where
  "demo_manager = \<lparr>mg_device = ''rpi3'', mg_frpc = [], mg_proxies = [], mg_cancel = None,
     mg_ctxs = [], mg_live = []\<rparr>"

lemma demo_new_manager:
  "new_manager proxy_alist listing_frp ''rpi3'' demo_tunnel_conf = Inr demo_manager"
  by (simp add: new_manager_def new_service_def listing_frp_def alist_store_def demo_manager_def)

lemma demo_libs: "tunnel_libs proxy_alist listing_frp (\<lambda>f. f)"
  by (rule listing.tunnel_libs_axioms)






definition demo_running :: "((string \<times> proxy_config) list, proxy_config list) manager" where
  "demo_running = snd (proxy_ssh proxy_alist listing_frp ''127.0.0.1'' 2222 demo_manager)"

lemma demo_running_reach: "manager_reach proxy_alist listing_frp demo_manager demo_running"
  unfolding demo_running_def
  by (rule manager_reach.step [OF manager_reach.refl manager_step.proxy]) simp

lemma demo_running_sel [simp]:
  "mg_cancel demo_running = Some 0" "mg_live demo_running = [0]" "mg_ctxs demo_running = [False]"
  by (simp_all add: demo_running_def proxy_ssh_def update_def spawn_run_def commit_run_def
      demo_manager_def alist_store_def split_beta Let_def)


text \<open>
  Why the exit of a stale run matters: the run goroutine clears \<open>m.cancel\<close> without checking
  that it is still its own.  When a stopped run returns an error while a newer run is
  current, the newer run stays live and uncancelled but the manager forgets it: \<open>Stop\<close> no
  longer does anything, so neither \<open>frpc.Close\<close> nor the cancellation ever reaches that run.
\<close>

theorem stale_exit_orphans_run:
  fixes e :: error
  assumes "mg_cancel m = Some j" and "run_uncancelled m j" and "i \<noteq> j"
  defines "m' \<equiv> run_exit i (Some e) m"
  shows "run_uncancelled m' j \<and> mg_cancel m' = None \<and> stop F m' = m'"
  using assms by (auto simp: run_uncancelled_def run_exit_def stop_def Let_def)

definition demo_restarted :: "((string \<times> proxy_config) list, proxy_config list) manager" where
  "demo_restarted =
     snd (proxy_ssh proxy_alist listing_frp ''127.0.0.1'' 2200
       (snd (un_proxy proxy_alist listing_frp ''127.0.0.1'' 2222 demo_running)))"

lemma demo_restarted_reach: "manager_reach proxy_alist listing_frp demo_manager demo_restarted"
proof -
  have "manager_reach proxy_alist listing_frp demo_manager
      (snd (un_proxy proxy_alist listing_frp ''127.0.0.1'' 2222 demo_running))"
    by (rule manager_reach.step [OF demo_running_reach manager_step.unproxy]) simp
  then show ?thesis
    unfolding demo_restarted_def by (rule manager_reach.step [OF _ manager_step.proxy]) simp
qed

lemma demo_restarted_sel:
  "mg_cancel demo_restarted = Some 1" "mg_live demo_restarted = [0, 1]"
  "mg_ctxs demo_restarted = [True, False]"
proof -
  have "AList.clearjunk (AList.delete k (mg_proxies demo_running)) = []"
    if "k = proxy_key ''127.0.0.1'' 2222" for k
    using that by (simp add: demo_running_def proxy_ssh_def update_def spawn_run_def
        commit_run_def demo_manager_def alist_store_def split_beta Let_def)
  then have un: "snd (un_proxy proxy_alist listing_frp ''127.0.0.1'' 2222 demo_running) =
      stop listing_frp (demo_running\<lparr>mg_proxies :=
        AList.delete (proxy_key ''127.0.0.1'' 2222) (mg_proxies demo_running)\<rparr>)"
    by (simp add: un_proxy_def update_def alist_store_def)
  have pos: "0 < st_length proxy_alist (st_set proxy_alist k v kvs)" for k v kvs
    by (rule alist.length_set_pos)
  show "mg_cancel demo_restarted = Some 1" "mg_live demo_restarted = [0, 1]"
    "mg_ctxs demo_restarted = [True, False]"
    using pos
    by (simp_all add: demo_restarted_def un proxy_ssh_def update_def spawn_run_def commit_run_def
        Let_def stop_def)
qed

theorem stale_exit_orphans_run_witness:
  "0 \<in> set (mg_live demo_restarted) \<and>
   run_uncancelled (run_exit 0 (Some (Error ''login to the server failed'')) demo_restarted) 1 \<and>
   stop listing_frp (run_exit 0 (Some (Error ''login to the server failed'')) demo_restarted) =
     run_exit 0 (Some (Error ''login to the server failed'')) demo_restarted"
  using stale_exit_orphans_run [of demo_restarted 1 0]
  by (simp add: demo_restarted_sel run_uncancelled_def)

text \<open>
  The first proxy with the run goroutine scheduled before \<open>m.cancel = cancel\<close> and failing at
  once: \<open>update\<close> with the goroutine's tail between its two halves.
\<close>

definition update_start_failed ::
  "'st proxy_store \<Rightarrow> 'f frp_ops \<Rightarrow> error \<Rightarrow> ('st, 'f) manager \<Rightarrow> error option \<times> ('st, 'f) manager" where
  "update_start_failed S F err m =
     (let (i, m1) = spawn_run m in reload S F (commit_run i (run_exit i (Some err) m1)))"



text \<open>
  The tunnel client connects to the address written in \<open>frpc.go\<close>: the client that is built
  from a loaded configuration does not depend on \<open>TESSA_TUNNEL_SERVER_ADDR\<close> (nor on anything
  else in the environment), which the configuration nevertheless records.
\<close>

theorem tunnel_ignores_server_address:
  assumes "fst (load_config unyaml env s f g) = Inr c" and "cfg_tunnel c = Some tc"
    and "fst (load_config unyaml (env(''TESSA_TUNNEL_SERVER_ADDR'' := addr)) s f g) = Inr c'"
    and "cfg_tunnel c' = Some tc'" and "addr \<noteq> []"
  shows "tc_server tc' = addr \<and> client_config tc' = client_config tc \<and>
    new_manager S F device tc' = new_manager S F device tc \<and>
    fc_server_addr (client_config tc') = ''52.7.199.211''"
proof -
  have "tc_server tc' = addr" and cert: "tc_cert tc' = tc_cert tc" "tc_key tc' = tc_key tc"
      "tc_ca tc' = tc_ca tc"
    using assms unfolding load_config_Inr_iff by (auto simp: tunnel_addr_def)
  moreover have "client_config tc' = client_config tc" using cert by (simp add: client_config_def)
  ultimately show ?thesis by (simp add: new_manager_def new_service_def client_config_def)
qed

theorem tunnel_ignores_server_address_witness:
  "\<exists>c' tc'. fst (load_config (\<lambda>_. Inr demo_config)
        ((\<lambda>_. [])(''TESSA_TUNNEL_SERVER_ADDR'' := ''t.example'')) demo_config_fs ''/d/c.yaml'' []) = Inr c' \<and>
     cfg_tunnel c' = Some tc' \<and> tc_server tc' = ''t.example'' \<and>
     fc_server_addr (client_config tc') = ''52.7.199.211''"
proof -
  let ?env = "(\<lambda>_. [])(''TESSA_TUNNEL_SERVER_ADDR'' := ''t.example'')"
  let ?tc = "\<lparr>tc_server = ''t.example'', tc_ca = ''/d/ca'', tc_key = ''/d/key'', tc_cert = ''/d/crt''\<rparr>"
  let ?default = "\<lparr>tc_server = ''52.7.199.211'', tc_ca = ''/d/ca'', tc_key = ''/d/key'', tc_cert = ''/d/crt''\<rparr>"
  have r0: "fst (load_config (\<lambda>_. Inr demo_config) (\<lambda>_. []) demo_config_fs ''/d/c.yaml'' []) =
      Inr (demo_config\<lparr>cfg_tunnel := Some ?default\<rparr>)"
    by (simp add: demo_load)
  have r: "fst (load_config (\<lambda>_. Inr demo_config) ?env demo_config_fs ''/d/c.yaml'' []) =
      Inr (demo_config\<lparr>cfg_tunnel := Some ?tc\<rparr>)"
    by (simp add: load_config_def, simp add: read_file_def demo_config_fs_def resolve_def
        rooted_def has_prefix_def, simp add: demo_config_def, simp add: tunnel_addr_def)
  have t: "cfg_tunnel (demo_config\<lparr>cfg_tunnel := Some x\<rparr>) = Some x" for x by simp
  have ne: "''t.example'' \<noteq> []" by simp
  have "fc_server_addr (client_config ?tc) = ''52.7.199.211''"
    using tunnel_ignores_server_address [OF r0 t r t ne] by blast
  with r show ?thesis
    by (intro exI [of _ "demo_config\<lparr>cfg_tunnel := Some ?tc\<rparr>"] exI [of _ ?tc] conjI t) simp_all
qed

end
