(* ===== verification/SSH_Handler.thy ===== *)
theory SSH_Handler
  imports Go_Json "HOL-Library.Word"
begin

text \<open>
  \<open>internal/remote_commands/handler\<close> and \<open>beszel.go\<close>: the payloads of remote commands, the
  conversion of a payload into a configuration, the embedded SSH server and its certificate
  check.

  \<open>golang.org/x/crypto/ssh\<close> and \<open>gliderlabs/ssh\<close> are third-party: keys and signers are
  unknown types and the functions the code calls on them are the record \<open>ssh_lib\<close>.  A
  \<open>net.Listener\<close> is represented by its port, \<open>None\<close> being the nil interface; \<open>hd_server\<close> is
  the field \<open>server\<close>, \<open>None\<close> until \<open>Handle\<close> assigned it.
\<close>

section \<open>Payloads\<close>

record beszel_config =
  bz_server_url :: string
  bz_token :: string
  bz_ssh_public_key :: string

datatype payload = NilPayload | JsonPayload json | BeszelPayload beszel_config

text \<open>\<open>json.Marshal\<close> of the values a payload can hold; it fails on none of them.\<close>

definition marshal_payload :: "payload \<Rightarrow> json" where
  "marshal_payload p =
     (case p of
        NilPayload \<Rightarrow> JNull
      | JsonPayload v \<Rightarrow> generic v
      | BeszelPayload b \<Rightarrow>
          JObj [(''server_url'', JStr (bz_server_url b)), (''token'', JStr (bz_token b)),
                (''ssh_public_key'', JStr (bz_ssh_public_key b))])"

text \<open>\<open>JsonPayloadToConfig\<close>, for the field names, setter and zero value of a config struct.\<close>

definition json_payload_to_config ::
  "string list \<Rightarrow> (string \<Rightarrow> json \<Rightarrow> 'r \<Rightarrow> json_error + 'r) \<Rightarrow> 'r \<Rightarrow> payload \<Rightarrow> json_error + 'r" where
  "json_payload_to_config names setf zero p =
     decode_struct names False setf (Some (marshal_payload p)) zero"

record ssh_server_config =
  sc_user_public_key :: string
  sc_host_private_key :: string

definition zero_ssh_server_config :: ssh_server_config where
  "zero_ssh_server_config = \<lparr>sc_user_public_key = [], sc_host_private_key = []\<rparr>"

definition set_ssh_field :: "string \<Rightarrow> json \<Rightarrow> ssh_server_config \<Rightarrow> json_error + ssh_server_config" where
  "set_ssh_field n v r =
     (if n = ''ca_public_key'' then
        and_then (decode_string n (sc_user_public_key r) v) (\<lambda>s. Inr (r\<lparr>sc_user_public_key := s\<rparr>))
      else
        and_then (decode_string n (sc_host_private_key r) v) (\<lambda>s. Inr (r\<lparr>sc_host_private_key := s\<rparr>)))"

definition ssh_payload_config :: "payload \<Rightarrow> json_error + ssh_server_config" where
  "ssh_payload_config =
     json_payload_to_config [''ca_public_key'', ''host_private_key''] set_ssh_field
       zero_ssh_server_config"

section \<open>The SSH libraries\<close>

record 'key certificate =
  ct_type :: nat
  ct_signature_key :: 'key
  ct_permissions :: "(string \<times> string) list"

record ('key, 'signer) ssh_lib =
  sl_marshal :: "'key \<Rightarrow> string"
  sl_as_cert :: "'key \<Rightarrow> 'key certificate option"
  sl_check_cert :: "string \<Rightarrow> 'key certificate \<Rightarrow> error option"
  sl_parse_authorized :: "string \<Rightarrow> 'key result"
  sl_parse_private :: "string \<Rightarrow> 'signer result"
  sl_key_type :: "'signer \<Rightarrow> string"
  sl_add_host_key :: "'signer \<Rightarrow> 'signer list \<Rightarrow> 'signer list"
  sl_shutdown :: "'signer list option \<Rightarrow> error option outcome"

text \<open>\<open>gossh.UserCert\<close>.\<close>

definition user_cert :: nat where
  "user_cert = 1"

section \<open>Certificate check\<close>

record 'key user_cert_checker =
  uc_is_user_authority :: "'key \<Rightarrow> bool"
  uc_check_cert :: "string \<Rightarrow> 'key certificate \<Rightarrow> error option"

definition authenticate ::
  "('key, 'signer) ssh_lib \<Rightarrow> 'key user_cert_checker \<Rightarrow> string \<Rightarrow> 'key \<Rightarrow>
   (string \<times> string) list result" where
  "authenticate L c user pub_key =
     (case sl_as_cert L pub_key of
        None \<Rightarrow> Inl (Error ''ssh: normal key pairs not accepted'')
      | Some cert \<Rightarrow>
          if ct_type cert \<noteq> user_cert then
            Inl (Error (''ssh: cert has type '' @ itoa (int (ct_type cert))))
          else if \<not> uc_is_user_authority c (ct_signature_key cert) then
            Inl (Error ''ssh: certificate signed by unrecognized authority'')
          else
            (case uc_check_cert c user cert of
               Some e \<Rightarrow> Inl e
             | None \<Rightarrow> Inr (ct_permissions cert)))"

section \<open>The handler\<close>

record ('key, 'signer) ssh_handler =
  hd_trusted :: 'key
  hd_host :: "'signer option"
  hd_listener :: "int option"
  hd_server :: "'signer list option"

definition new_ssh_server_handler ::
  "('key, 'signer) ssh_lib \<Rightarrow> int result \<Rightarrow> payload \<Rightarrow> ('key, 'signer) ssh_handler result" where
  "new_ssh_server_handler L listen p =
     (case ssh_payload_config p of
        Inl _ \<Rightarrow> Inl (Error ''invalid payload type: expected SSHServerConfig'')
      | Inr req \<Rightarrow>
          and_then
            (wrap_error (\<lambda>e. case e of Error m \<Rightarrow> Error (''failed to parse CA public key: '' @ m))
               (sl_parse_authorized L (sc_user_public_key req))) (\<lambda>ca.
          and_then
            (if sc_host_private_key req \<noteq> [] then
               wrap_error (\<lambda>e. case e of Error m \<Rightarrow> Error (''failed to parse host private key: '' @ m))
                 (and_then (sl_parse_private L (sc_host_private_key req)) (\<lambda>k. Inr (Some k)))
             else Inr None) (\<lambda>private.
          and_then listen (\<lambda>port.
            Inr \<lparr>hd_trusted = ca, hd_host = private, hd_listener = Some port, hd_server = None\<rparr>))))"

definition listen_port :: "('key, 'signer) ssh_handler \<Rightarrow> int outcome" where
  "listen_port h =
     (case hd_listener h of
        None \<Rightarrow> Panics ''nil pointer dereference''
      | Some port \<Rightarrow> Returns port)"

text \<open>The checker that \<open>Handle\<close> builds, and the \<open>PublicKeyHandler\<close> around it.\<close>

definition handler_checker ::
  "('key, 'signer) ssh_lib \<Rightarrow> ('key, 'signer) ssh_handler \<Rightarrow> 'key user_cert_checker" where
  "handler_checker L h =
     \<lparr>uc_is_user_authority = (\<lambda>auth. sl_marshal L auth = sl_marshal L (hd_trusted h)),
      uc_check_cert = sl_check_cert L\<rparr>"

definition public_key_handler ::
  "('key, 'signer) ssh_lib \<Rightarrow> ('key, 'signer) ssh_handler \<Rightarrow> string \<Rightarrow> 'key \<Rightarrow>
   bool \<times> (string \<times> string) list option" where
  "public_key_handler L h user pub_key =
     (case authenticate L (handler_checker L h) user pub_key of
        Inl _ \<Rightarrow> (False, None)
      | Inr permissions \<Rightarrow> (True, Some permissions))"

text \<open>
  \<open>Handle\<close> up to the call of \<open>Serve\<close>; \<open>gen\<close> is the key \<open>ecdsa.GenerateKey\<close> delivers, as a
  signer.
\<close>

definition handle ::
  "('key, 'signer) ssh_lib \<Rightarrow> 'signer result \<Rightarrow> ('key, 'signer) ssh_handler \<Rightarrow>
   error option outcome \<times> ('key, 'signer) ssh_handler" where
  "handle L gen h =
     (case listen_port h of
        Panics m \<Rightarrow> (Panics m, h)
      | Returns _ \<Rightarrow>
          let keys = (case hd_host h of None \<Rightarrow> [] | Some k \<Rightarrow> sl_add_host_key L k []) in
          (case gen of
             Inl e \<Rightarrow> (Returns (Some e), h)
           | Inr signer \<Rightarrow>
               (Returns None, h\<lparr>hd_server := Some (sl_add_host_key L signer keys)\<rparr>)))"

text \<open>
  \<open>Stop\<close>: closing a nil listener panics; the listener is cleared before the server is shut
  down.
\<close>

definition handler_stop ::
  "('key, 'signer) ssh_lib \<Rightarrow> ('key, 'signer) ssh_handler \<Rightarrow>
   error option outcome \<times> ('key, 'signer) ssh_handler" where
  "handler_stop L h =
     (case hd_listener h of
        None \<Rightarrow> (Panics ''nil pointer dereference'', h)
      | Some _ \<Rightarrow>
          let h' = h\<lparr>hd_listener := None\<rparr> in (sl_shutdown L (hd_server h'), h'))"

section \<open>Sessions\<close>

text \<open>The window-size record handed to the terminal driver, and Go's truncating conversion.\<close>

record winsize =
  ws_row :: "16 word"
  ws_col :: "16 word"
  ws_xpixel :: "16 word"
  ws_ypixel :: "16 word"

definition handler_winsize :: "int \<Rightarrow> int \<Rightarrow> winsize" where
  "handler_winsize w h =
     \<lparr>ws_row = word_of_int h, ws_col = word_of_int w, ws_xpixel = 0, ws_ypixel = 0\<rparr>"

datatype session_effect = StartBash "string list" | CopyOutput | WaitCommand | ExitSession int

text \<open>\<open>handleSession\<close>: the terminal type when the client asked for a terminal, and whether
  \<open>pty.Start\<close> succeeds.\<close>

definition handle_session :: "string option \<Rightarrow> error option \<Rightarrow> session_effect list outcome" where
  "handle_session pty start_err =
     (case pty of
        None \<Rightarrow> Returns [ExitSession 0]
      | Some term \<Rightarrow>
          (case start_err of
             Some (Error m) \<Rightarrow> Panics m
           | None \<Rightarrow> Returns [StartBash [''TERM='' @ term], CopyOutput, WaitCommand, ExitSession 0]))"

section \<open>Lemmas\<close>

text \<open>
  What \<open>AddHostKey\<close> documents: the key is added, and replaces an existing key of its type.
\<close>

locale host_keys =
  fixes L :: "('key, 'signer) ssh_lib"
  assumes add_host_key:
    "set (sl_add_host_key L k ks) =
       insert k {k' \<in> set ks. sl_key_type L k' \<noteq> sl_key_type L k}"
begin

lemma handle_keys:
  assumes "hd_listener h = Some port" and "handle L (Inr g) h = (r, h')"
  shows "\<exists>ks. hd_server h' = Some ks \<and> r = Returns None \<and>
    set ks = insert g {k. hd_host h = Some k \<and> sl_key_type L k \<noteq> sl_key_type L g}"
proof -
  let ?keys = "case hd_host h of None \<Rightarrow> [] | Some k \<Rightarrow> sl_add_host_key L k []"
  have "set ?keys = {k. hd_host h = Some k}"
    by (cases "hd_host h") (auto simp: add_host_key)
  moreover have "r = Returns None" "hd_server h' = Some (sl_add_host_key L g ?keys)"
    using assms by (auto simp: handle_def listen_port_def Let_def)
  ultimately show ?thesis by (auto simp: add_host_key)
qed

end

definition replace_host_key :: "('signer \<Rightarrow> string) \<Rightarrow> 'signer \<Rightarrow> 'signer list \<Rightarrow> 'signer list" where
  "replace_host_key ty k ks = filter (\<lambda>k'. ty k' \<noteq> ty k) ks @ [k]"

interpretation replacing: host_keys "L\<lparr>sl_add_host_key := replace_host_key (sl_key_type L)\<rparr>"
  for L :: "('key, 'signer) ssh_lib"
  by unfold_locales (auto simp: replace_host_key_def)

lemma authenticate_Inr_iff:
  "authenticate L c user k = Inr perms \<longleftrightarrow>
     (\<exists>cert. sl_as_cert L k = Some cert \<and> ct_type cert = user_cert \<and>
        uc_is_user_authority c (ct_signature_key cert) \<and> uc_check_cert c user cert = None \<and>
        perms = ct_permissions cert)"
  by (auto simp: authenticate_def split: option.splits)

lemma listen_port_after_stop:
  "hd_listener h = Some port \<Longrightarrow> panics (listen_port (snd (handler_stop L h)))"
  by (simp add: handler_stop_def listen_port_def Let_def)

text \<open>Decoding the members of an SSH payload whose keys are distinct.\<close>

abbreviation ssh_fields :: "string list" where
  "ssh_fields \<equiv> [''ca_public_key'', ''host_private_key'']"

definition ssh_member_ok :: "string \<times> json \<Rightarrow> bool" where
  "ssh_member_ok m \<longleftrightarrow>
     (if fst m \<in> set ssh_fields then \<exists>s. snd m = JStr s
      else match_field ssh_fields (fst m) = None)"

definition string_or :: "string \<Rightarrow> json option \<Rightarrow> string" where
  "string_or old v = (case v of Some (JStr s) \<Rightarrow> s | _ \<Rightarrow> old)"

lemma string_or_simps [simp]:
  "string_or old None = old" "string_or old (Some (JStr s)) = s"
  by (simp_all add: string_or_def)

lemma set_ssh_field_strings:
  "set_ssh_field ''ca_public_key'' (JStr s) r = Inr (r\<lparr>sc_user_public_key := s\<rparr>)"
  "set_ssh_field ''host_private_key'' (JStr s) r = Inr (r\<lparr>sc_host_private_key := s\<rparr>)"
  by (simp_all add: set_ssh_field_def decode_string_def)

lemma decode_ssh_members:
  assumes "distinct (map fst ns)" and "\<forall>m \<in> set ns. ssh_member_ok m"
  shows "decode_members ssh_fields False set_ssh_field ns r =
    Inr \<lparr>sc_user_public_key = string_or (sc_user_public_key r) (map_of ns ''ca_public_key''),
         sc_host_private_key = string_or (sc_host_private_key r) (map_of ns ''host_private_key'')\<rparr>"
  using assms
proof (induction ns arbitrary: r)
  case Nil
  show ?case by simp
next
  case (Cons m ns)
  obtain k v where m: "m = (k, v)" by force
  from Cons.prems(1) m have fresh: "map_of ns k = None"
    by (simp add: map_of_eq_None_iff)
  consider (ca) s where "k = ''ca_public_key''" "v = JStr s"
    | (host) s where "k = ''host_private_key''" "v = JStr s"
    | (other) "k \<notin> set ssh_fields" "match_field ssh_fields k = None"
    using Cons.prems(2) m by (auto simp: ssh_member_ok_def split: if_splits)
  then show ?case
    using Cons.prems fresh by cases (auto simp: m Cons.IH set_ssh_field_strings)
qed

lemma map_of_rev_in: "map_of (rev ms) k = Some v \<Longrightarrow> (k, v) \<in> set ms"
  using map_of_SomeD by fastforce

section \<open>Properties\<close>

text \<open>
  C5.  The login decision of the embedded SSH server: a key is accepted exactly when it is an
  SSH certificate of user type, signed by the key the command's payload named as CA (the
  same marshalled bytes), and the certificate checker finds it valid for the user; the
  session then gets the certificate's permissions.  Plain keys are never accepted.
\<close>

theorem ssh_login_iff:
  "public_key_handler L h user k = (True, p) \<longleftrightarrow>
     (\<exists>cert. sl_as_cert L k = Some cert \<and> ct_type cert = 1 \<and>
        sl_marshal L (ct_signature_key cert) = sl_marshal L (hd_trusted h) \<and>
        sl_check_cert L user cert = None \<and> p = Some (ct_permissions cert))"
proof -
  have "public_key_handler L h user k = (True, p) \<longleftrightarrow>
      (\<exists>perms. authenticate L (handler_checker L h) user k = Inr perms \<and> p = Some perms)"
    by (auto simp: public_key_handler_def split: sum.splits)
  then show ?thesis
    by (auto simp: authenticate_Inr_iff handler_checker_def user_cert_def)
qed


definition demo_lib :: "(string, string \<times> string) ssh_lib" where
  "demo_lib =
     \<lparr>sl_marshal = (\<lambda>k. k),
      sl_as_cert = (\<lambda>k. if k = ''cert'' then
          Some \<lparr>ct_type = 1, ct_signature_key = ''ca'', ct_permissions = []\<rparr> else None),
      sl_check_cert = (\<lambda>_ _. None), sl_parse_authorized = Inr,
      sl_parse_private = (\<lambda>s. Inr (''ecdsa'', s)), sl_key_type = fst,
      sl_add_host_key = replace_host_key fst, sl_shutdown = (\<lambda>_. Returns None)\<rparr>"

lemma demo_lib_host_keys: "host_keys demo_lib"
  by unfold_locales (auto simp: demo_lib_def replace_host_key_def)

definition demo_handler :: "(string, string \<times> string) ssh_handler" where
  "demo_handler = \<lparr>hd_trusted = ''ca'', hd_host = Some (''ecdsa'', ''configured''),
     hd_listener = Some 40000, hd_server = None\<rparr>"


text \<open>
  C29.  The way of a payload from the command message to the SSH configuration: decoded into an
  untyped Go value, marshalled again with its keys in order, and decoded into the struct.
  The configuration gets, for each of its two fields, the last string the message gave
  under the field's name, and the empty string when there is none; members under other
  names are ignored.
\<close>

theorem ssh_payload_roundtrip:
  assumes "\<forall>m \<in> set ms. ssh_member_ok m"
  shows "ssh_payload_config (JsonPayload (JObj ms)) =
    Inr \<lparr>sc_user_public_key = string_or [] (map_of (rev ms) ''ca_public_key''),
         sc_host_private_key = string_or [] (map_of (rev ms) ''host_private_key'')\<rparr>"
proof -
  obtain ns where ns: "generic (JObj ms) = JObj ns" by simp
  note look = generic_lookup [OF ns]
  have dist: "distinct (map fst ns)"
  proof -
    have "sorted_wrt (\<lambda>a b. str_less a b) (map fst ns)"
      using look by (simp add: members_sorted_def sorted_wrt_map)
    then have "sorted_wrt (\<noteq>) (map fst ns)"
      by (rule sorted_wrt_mono_rel [rotated]) (use str_less_irrefl in blast)
    then show ?thesis by (simp add: distinct_conv_nth sorted_wrt_iff_nth_less) (metis linorder_neqE_nat)
  qed
  have "ssh_member_ok m" if "m \<in> set ns" for m
  proof -
    obtain k v where m: "m = (k, v)" by force
    then have "map_of ns k = Some v" using that dist by simp
    then obtain v' where v': "map_of (rev ms) k = Some v'" "v = generic v'"
      using look by (auto simp: map_option_case split: option.splits)
    from assms map_of_rev_in [OF v'(1)] have "ssh_member_ok (k, v')" by blast
    with v'(2) show ?thesis by (auto simp: ssh_member_ok_def m)
  qed
  then have dec: "decode_members ssh_fields False set_ssh_field ns zero_ssh_server_config =
      Inr \<lparr>sc_user_public_key = string_or [] (map_of ns ''ca_public_key''),
           sc_host_private_key = string_or [] (map_of ns ''host_private_key'')\<rparr>"
    using decode_ssh_members [OF dist] by (simp add: zero_ssh_server_config_def)
  have "string_or [] (map_of ns k) = string_or [] (map_of (rev ms) k)" if k: "k \<in> set ssh_fields" for k
  proof (cases "map_of (rev ms) k")
    case None
    then show ?thesis using look by simp
  next
    case (Some v)
    have "ssh_member_ok (k, v)" using assms map_of_rev_in [OF Some] by blast
    then obtain s where "v = JStr s" using k by (auto simp: ssh_member_ok_def)
    with Some look show ?thesis by simp
  qed
  with dec show ?thesis
    by (simp add: ssh_payload_config_def json_payload_to_config_def marshal_payload_def
        decode_struct_def ns del: generic.simps)
qed

theorem ssh_payload_roundtrip_witness:
  "ssh_payload_config (JsonPayload (JObj [(''x'', JInt 1), (''host_private_key'', JStr ''hk''),
      (''ca_public_key'', JStr ''a''), (''ca_public_key'', JStr ''ca'')])) =
   Inr \<lparr>sc_user_public_key = ''ca'', sc_host_private_key = ''hk''\<rparr>"
proof -
  have "\<forall>m \<in> set [(''x'', JInt 1), (''host_private_key'', JStr ''hk''),
      (''ca_public_key'', JStr ''a''), (''ca_public_key'', JStr ''ca'')]. ssh_member_ok m"
    by (simp add: ssh_member_ok_def match_field_def upper_def)
  from ssh_payload_roundtrip [OF this] show ?thesis by (simp add: string_or_def)
qed

end
