(* ===== verification/Commands.thy ===== *)
theory Commands
  imports SSH_Handler Tunnel
begin

text \<open>
  \<open>internal/remote_commands\<close>: the remote commands (\<open>command.go\<close>) and their manager
  (\<open>command_manager.go\<close>).

  A \<open>*Command\<close> is shared by the store, its \<open>Start\<close> goroutine and its handler's goroutine, so
  commands live in the list \<open>dm_heap\<close> and the store maps an id to an index.  \<open>cd_ctx\<close> is the
  command's context: \<open>None\<close> for the nil context, otherwise whether it was cancelled (\<open>cancel\<close>
  is nil exactly when \<open>ctx\<close> is).  \<open>cd_pc\<close> is where the \<open>Start\<close> goroutine stands and
  \<open>cd_handling\<close> where the goroutine that calls \<open>Handle\<close> stands.  A panic in a goroutine ends
  the process: \<open>dm_crashed\<close>.

  The NATS client, the store, FRP and the SSH libraries are third-party: their functions are
  the record \<open>libs\<close>.  The operations are functions on the state; \<open>daemon_step\<close> interleaves
  messages from the control plane with the steps of the goroutines, those of the tunnel's
  client included (\<open>run_exit\<close>).
\<close>

section \<open>State\<close>

datatype start_pc = Starting | Waiting | Finished

datatype handle_pc = NoHandle | HandlePending | Serving | HandleFailed

record ('key, 'signer) command =
  cd_id :: string
  cd_payload :: payload
  cd_handler :: "('key, 'signer) ssh_handler option"
  cd_ctx :: "bool option"
  cd_pc :: start_pc
  cd_handling :: handle_pc

record ('st, 'pst, 'f, 'key, 'signer, 'sub) daemon =
  dm_commands :: 'st
  dm_heap :: "('key, 'signer) command list"
  dm_tunnel :: "('pst, 'f) manager"
  dm_subs :: "'sub list"
  dm_crashed :: bool

record ('st, 'pst, 'f, 'key, 'signer, 'sub) libs =
  lb_store :: "('st, string, nat) store_ops"
  lb_proxies :: "'pst proxy_store"
  lb_frp :: "'f frp_ops"
  lb_ssh :: "('key, 'signer) ssh_lib"
  lb_subscribe :: "string \<Rightarrow> 'sub result"
  lb_drain :: "'sub \<Rightarrow> error option"

definition start_ssh_command :: string where
  "start_ssh_command = ''start-ssh''"

definition enable_beszel_command :: string where
  "enable_beszel_command = ''enable-beszel''"

definition loopback :: string where
  "loopback = ''127.0.0.1''"

definition new_command :: "string \<Rightarrow> payload \<Rightarrow> ('key, 'signer) command" where
  "new_command cid p =
     \<lparr>cd_id = cid, cd_payload = p, cd_handler = None, cd_ctx = None, cd_pc = Starting,
      cd_handling = NoHandle\<rparr>"

definition new_command_manager ::
  "('st, 'pst, 'f, 'key, 'signer, 'sub) libs \<Rightarrow> ('pst, 'f) manager \<Rightarrow>
   ('st, 'pst, 'f, 'key, 'signer, 'sub) daemon" where
  "new_command_manager L tunnel =
     \<lparr>dm_commands = st_new (lb_store L), dm_heap = [], dm_tunnel = tunnel, dm_subs = [],
      dm_crashed = False\<rparr>"

definition set_cmd ::
  "nat \<Rightarrow> ('key, 'signer) command \<Rightarrow> ('st, 'pst, 'f, 'key, 'signer, 'sub) daemon \<Rightarrow>
   ('st, 'pst, 'f, 'key, 'signer, 'sub) daemon" where
  "set_cmd i c d = d\<lparr>dm_heap := (dm_heap d)[i := c]\<rparr>"

section \<open>The manager's operations\<close>

definition get_command ::
  "('st, 'pst, 'f, 'key, 'signer, 'sub) libs \<Rightarrow> string \<Rightarrow>
   ('st, 'pst, 'f, 'key, 'signer, 'sub) daemon \<Rightarrow> nat result" where
  "get_command L cid d =
     (case st_get (lb_store L) (dm_commands d) cid of
        None \<Rightarrow> Inl (Error ''command not found'')
      | Some i \<Rightarrow> Inr i)"

text \<open>\<open>getContext\<close> creates the context on first use; \<open>cancel\<close> marks it cancelled.\<close>

definition get_context :: "('key, 'signer) command \<Rightarrow> ('key, 'signer) command" where
  "get_context c = (if cd_ctx c = None then c\<lparr>cd_ctx := Some False\<rparr> else c)"

definition cancel_ctx :: "('key, 'signer) command \<Rightarrow> ('key, 'signer) command" where
  "cancel_ctx c = c\<lparr>cd_ctx := map_option (\<lambda>_. True) (cd_ctx c)\<rparr>"

text \<open>\<open>AddCommand\<close>: the test of the store, then the registration with its goroutine.\<close>

definition add_commit ::
  "('st, 'pst, 'f, 'key, 'signer, 'sub) libs \<Rightarrow> ('key, 'signer) command \<Rightarrow>
   ('st, 'pst, 'f, 'key, 'signer, 'sub) daemon \<Rightarrow> ('st, 'pst, 'f, 'key, 'signer, 'sub) daemon" where
  "add_commit L c d =
     d\<lparr>dm_heap := dm_heap d @ [get_context c],
       dm_commands := st_set (lb_store L) (cd_id c) (length (dm_heap d)) (dm_commands d)\<rparr>"

definition add_command ::
  "('st, 'pst, 'f, 'key, 'signer, 'sub) libs \<Rightarrow> ('key, 'signer) command \<Rightarrow>
   ('st, 'pst, 'f, 'key, 'signer, 'sub) daemon \<Rightarrow> ('st, 'pst, 'f, 'key, 'signer, 'sub) daemon" where
  "add_command L c d =
     (if st_has (lb_store L) (dm_commands d) (cd_id c) then d else add_commit L c d)"

definition remove_command ::
  "('st, 'pst, 'f, 'key, 'signer, 'sub) libs \<Rightarrow> string \<Rightarrow>
   ('st, 'pst, 'f, 'key, 'signer, 'sub) daemon \<Rightarrow>
   error option \<times> ('st, 'pst, 'f, 'key, 'signer, 'sub) daemon" where
  "remove_command L cid d =
     (case st_get (lb_store L) (dm_commands d) cid of
        None \<Rightarrow> (Some (Error ''command not found''), d)
      | Some i \<Rightarrow>
          (None, (set_cmd i (cancel_ctx (dm_heap d ! i)) d)
                   \<lparr>dm_commands := st_remove (lb_store L) cid (dm_commands d)\<rparr>))"

text \<open>The command requests of the control plane.\<close>

record command_request =
  cr_command :: string
  cr_payload :: payload

definition set_request_field :: "string \<Rightarrow> json \<Rightarrow> command_request \<Rightarrow> json_error + command_request" where
  "set_request_field n v r =
     (if n = ''command'' then
        and_then (decode_string n (cr_command r) v) (\<lambda>s. Inr (r\<lparr>cr_command := s\<rparr>))
      else Inr (r\<lparr>cr_payload := (if v = JNull then NilPayload else JsonPayload v)\<rparr>))"

definition decode_request :: "json option \<Rightarrow> json_error + command_request" where
  "decode_request doc =
     decode_struct [''command'', ''payload''] False set_request_field doc
       \<lparr>cr_command = [], cr_payload = NilPayload\<rparr>"

text \<open>The subscription callback.\<close>

definition on_message ::
  "('st, 'pst, 'f, 'key, 'signer, 'sub) libs \<Rightarrow> json option \<Rightarrow>
   ('st, 'pst, 'f, 'key, 'signer, 'sub) daemon \<Rightarrow> ('st, 'pst, 'f, 'key, 'signer, 'sub) daemon" where
  "on_message L doc d =
     (case decode_request doc of
        Inl _ \<Rightarrow> d
      | Inr req \<Rightarrow> add_command L (new_command (cr_command req) (cr_payload req)) d)"

definition commands_subject :: "string \<Rightarrow> string" where
  "commands_subject device = ''tessa.devices.'' @ device @ ''.commands.json''"

definition start_subscriptions ::
  "('st, 'pst, 'f, 'key, 'signer, 'sub) libs \<Rightarrow> string \<Rightarrow>
   ('st, 'pst, 'f, 'key, 'signer, 'sub) daemon \<Rightarrow>
   error option \<times> ('st, 'pst, 'f, 'key, 'signer, 'sub) daemon" where
  "start_subscriptions L device d =
     (case lb_subscribe L (commands_subject device) of
        Inl e \<Rightarrow> (Some e, d)
      | Inr sub \<Rightarrow> (None, d\<lparr>dm_subs := dm_subs d @ [sub]\<rparr>))"

definition default_beszel :: beszel_config where
  "default_beszel = \<lparr>bz_server_url = ''http://192.168.1.100:8090'', bz_token = [],
     bz_ssh_public_key = []\<rparr>"

definition initialize ::
  "('st, 'pst, 'f, 'key, 'signer, 'sub) libs \<Rightarrow> string \<Rightarrow>
   ('st, 'pst, 'f, 'key, 'signer, 'sub) daemon \<Rightarrow>
   error option \<times> ('st, 'pst, 'f, 'key, 'signer, 'sub) daemon" where
  "initialize L device d =
     (case start_subscriptions L device d of
        (Some e, d') \<Rightarrow> (Some e, d')
      | (None, d') \<Rightarrow>
          (None, add_command L (new_command enable_beszel_command (BeszelPayload default_beszel)) d'))"

text \<open>\<open>CommandManager.Stop\<close>: drain every subscription, then remove every registered command.\<close>

fun drain_all :: "('sub \<Rightarrow> error option) \<Rightarrow> 'sub list \<Rightarrow> error option" where
  "drain_all drain [] = None"
| "drain_all drain (s # ss) = (case drain s of Some e \<Rightarrow> Some e | None \<Rightarrow> drain_all drain ss)"

fun remove_all ::
  "('st, 'pst, 'f, 'key, 'signer, 'sub) libs \<Rightarrow> nat list \<Rightarrow>
   ('st, 'pst, 'f, 'key, 'signer, 'sub) daemon \<Rightarrow>
   error option \<times> ('st, 'pst, 'f, 'key, 'signer, 'sub) daemon" where
  "remove_all L [] d = (None, d)"
| "remove_all L (i # js) d =
     (case remove_command L (cd_id (dm_heap d ! i)) d of
        (Some e, d') \<Rightarrow> (Some e, d')
      | (None, d') \<Rightarrow> remove_all L js d')"

definition stop_manager ::
  "('st, 'pst, 'f, 'key, 'signer, 'sub) libs \<Rightarrow>
   ('st, 'pst, 'f, 'key, 'signer, 'sub) daemon \<Rightarrow>
   error option \<times> ('st, 'pst, 'f, 'key, 'signer, 'sub) daemon" where
  "stop_manager L d =
     (case drain_all (lb_drain L) (dm_subs d) of
        Some e \<Rightarrow> (Some e, d)
      | None \<Rightarrow> remove_all L (map snd (st_all (lb_store L) (dm_commands d))) d)"

section \<open>The goroutines of a command\<close>

text \<open>\<open>startSSHServer\<close>; \<open>listen\<close> is the port \<open>net.Listen\<close> delivers.\<close>

definition start_ssh_server ::
  "('st, 'pst, 'f, 'key, 'signer, 'sub) libs \<Rightarrow> int result \<Rightarrow> nat \<Rightarrow>
   ('st, 'pst, 'f, 'key, 'signer, 'sub) daemon \<Rightarrow> ('st, 'pst, 'f, 'key, 'signer, 'sub) daemon" where
  "start_ssh_server L listen i d =
     (let c = dm_heap d ! i in
      if cd_handler c \<noteq> None then d
      else case new_ssh_server_handler (lb_ssh L) listen (cd_payload c) of
             Inl _ \<Rightarrow> d
           | Inr h \<Rightarrow>
               let d1 = set_cmd i (c\<lparr>cd_handler := Some h, cd_handling := HandlePending\<rparr>) d in
               (case listen_port h of
                  Panics _ \<Rightarrow> d1\<lparr>dm_crashed := True\<rparr>
                | Returns port \<Rightarrow>
                    d1\<lparr>dm_tunnel := snd (proxy_ssh (lb_proxies L) (lb_frp L) loopback port
                                           (dm_tunnel d1))\<rparr>))"

text \<open>\<open>Start\<close> up to its wait for the context.\<close>

definition command_start ::
  "('st, 'pst, 'f, 'key, 'signer, 'sub) libs \<Rightarrow> int result \<Rightarrow> nat \<Rightarrow>
   ('st, 'pst, 'f, 'key, 'signer, 'sub) daemon \<Rightarrow> ('st, 'pst, 'f, 'key, 'signer, 'sub) daemon" where
  "command_start L listen i d =
     (if cd_handler (dm_heap d ! i) \<noteq> None then set_cmd i ((dm_heap d ! i)\<lparr>cd_pc := Finished\<rparr>) d
      else
        let d1 = (if cd_id (dm_heap d ! i) = start_ssh_command
                  then start_ssh_server L listen i d else d)
        in set_cmd i ((dm_heap d1 ! i)\<lparr>cd_pc := Waiting\<rparr>) d1)"

text \<open>The goroutine \<open>cmd.handler.Handle(cmd.ctx)\<close>, up to \<open>Serve\<close>.\<close>

definition run_handler ::
  "('st, 'pst, 'f, 'key, 'signer, 'sub) libs \<Rightarrow> 'signer result \<Rightarrow> nat \<Rightarrow>
   ('st, 'pst, 'f, 'key, 'signer, 'sub) daemon \<Rightarrow> ('st, 'pst, 'f, 'key, 'signer, 'sub) daemon" where
  "run_handler L gen i d =
     (let c = dm_heap d ! i in
      case cd_handler c of
        None \<Rightarrow> d\<lparr>dm_crashed := True\<rparr>
      | Some h \<Rightarrow>
          (case handle (lb_ssh L) gen h of
             (Panics _, h') \<Rightarrow> d\<lparr>dm_crashed := True\<rparr>
           | (Returns (Some _), h') \<Rightarrow>
               set_cmd i (c\<lparr>cd_handler := Some h', cd_handling := HandleFailed\<rparr>) d
           | (Returns None, h') \<Rightarrow>
               set_cmd i (c\<lparr>cd_handler := Some h', cd_handling := Serving\<rparr>) d))"

text \<open>\<open>Command.Stop\<close>, which the \<open>Start\<close> goroutine runs when the context is done.\<close>

definition command_stop ::
  "('st, 'pst, 'f, 'key, 'signer, 'sub) libs \<Rightarrow> nat \<Rightarrow>
   ('st, 'pst, 'f, 'key, 'signer, 'sub) daemon \<Rightarrow> ('st, 'pst, 'f, 'key, 'signer, 'sub) daemon" where
  "command_stop L i d =
     (let c = dm_heap d ! i;
          finish = (\<lambda>d. set_cmd i (cancel_ctx ((dm_heap d ! i)\<lparr>cd_handler := None, cd_pc := Finished\<rparr>)) d)
      in case cd_handler c of
           None \<Rightarrow> finish d
         | Some h \<Rightarrow>
             (case handler_stop (lb_ssh L) h of
                (Panics _, h') \<Rightarrow> (set_cmd i (c\<lparr>cd_handler := Some h'\<rparr>) d)\<lparr>dm_crashed := True\<rparr>
              | (Returns _, h') \<Rightarrow>
                  let d1 = set_cmd i (c\<lparr>cd_handler := Some h'\<rparr>) d in
                  (case listen_port h' of
                     Panics _ \<Rightarrow> d1\<lparr>dm_crashed := True\<rparr>
                   | Returns port \<Rightarrow>
                       finish (d1\<lparr>dm_tunnel := snd (un_proxy (lb_proxies L) (lb_frp L) loopback port
                                                      (dm_tunnel d1))\<rparr>))))"

section \<open>Steps\<close>

datatype 'signer dm_event =
    EvMessage "json option"
  | EvRemove string
  | EvStart nat "int result"
  | EvHandle nat "'signer result"
  | EvDone nat
  | EvRunExit nat "error option"

inductive daemon_step ::
  "('st, 'pst, 'f, 'key, 'signer, 'sub) libs \<Rightarrow>
   ('st, 'pst, 'f, 'key, 'signer, 'sub) daemon \<Rightarrow> 'signer dm_event \<Rightarrow>
   ('st, 'pst, 'f, 'key, 'signer, 'sub) daemon \<Rightarrow> bool"
  for L :: "('st, 'pst, 'f, 'key, 'signer, 'sub) libs" where
  message: "\<not> dm_crashed d \<Longrightarrow> daemon_step L d (EvMessage doc) (on_message L doc d)"
| remove: "\<not> dm_crashed d \<Longrightarrow> daemon_step L d (EvRemove cid) (snd (remove_command L cid d))"
| start: "\<not> dm_crashed d \<Longrightarrow> i < length (dm_heap d) \<Longrightarrow> cd_pc (dm_heap d ! i) = Starting \<Longrightarrow>
    daemon_step L d (EvStart i listen) (command_start L listen i d)"
| handle: "\<not> dm_crashed d \<Longrightarrow> i < length (dm_heap d) \<Longrightarrow>
    cd_handling (dm_heap d ! i) = HandlePending \<Longrightarrow>
    daemon_step L d (EvHandle i gen) (run_handler L gen i d)"
| finish: "\<not> dm_crashed d \<Longrightarrow> i < length (dm_heap d) \<Longrightarrow> cd_pc (dm_heap d ! i) = Waiting \<Longrightarrow>
    cd_ctx (dm_heap d ! i) = Some True \<Longrightarrow>
    daemon_step L d (EvDone i) (command_stop L i d)"
| run_exit: "\<not> dm_crashed d \<Longrightarrow> i \<in> set (mg_live (dm_tunnel d)) \<Longrightarrow>
    daemon_step L d (EvRunExit i err) (d\<lparr>dm_tunnel := run_exit i err (dm_tunnel d)\<rparr>)"

inductive_cases daemon_stepE: "daemon_step L d ev d'"

inductive daemon_reach ::
  "('st, 'pst, 'f, 'key, 'signer, 'sub) libs \<Rightarrow> string \<Rightarrow>
   ('st, 'pst, 'f, 'key, 'signer, 'sub) daemon \<Rightarrow> bool"
  for L :: "('st, 'pst, 'f, 'key, 'signer, 'sub) libs" and device :: string where
  init: "initialize L device (new_command_manager L tunnel) = (None, d) \<Longrightarrow> daemon_reach L device d"
| step: "daemon_reach L device d \<Longrightarrow> daemon_step L d ev d' \<Longrightarrow> daemon_reach L device d'"

section \<open>Invariant\<close>

text \<open>
  Registered commands and live commands are the same: an entry of the store is a command of
  that id whose context is live, and a command whose context is live is registered under its
  id.  Only a waiting start-ssh command has a handler; until a crash its listener is open.
\<close>

definition cmd_ok :: "('key, 'signer) command \<Rightarrow> bool" where
  "cmd_ok c \<longleftrightarrow>
     cd_ctx c \<noteq> None \<and>
     (cd_handling c = HandlePending \<longrightarrow> cd_handler c \<noteq> None) \<and>
     (\<forall>h. cd_handler c = Some h \<longrightarrow>
        cd_id c = start_ssh_command \<and> cd_pc c = Waiting \<and> hd_listener h \<noteq> None)"

definition store_ok ::
  "('st, 'pst, 'f, 'key, 'signer, 'sub) libs \<Rightarrow>
   ('st, 'pst, 'f, 'key, 'signer, 'sub) daemon \<Rightarrow> bool" where
  "store_ok L d \<longleftrightarrow>
     (\<forall>k i. st_get (lb_store L) (dm_commands d) k = Some i \<longleftrightarrow>
        i < length (dm_heap d) \<and> cd_id (dm_heap d ! i) = k \<and> cd_ctx (dm_heap d ! i) = Some False)"

definition dm_inv ::
  "('st, 'pst, 'f, 'key, 'signer, 'sub) libs \<Rightarrow>
   ('st, 'pst, 'f, 'key, 'signer, 'sub) daemon \<Rightarrow> bool" where
  "dm_inv L d \<longleftrightarrow> store_ok L d \<and> (\<not> dm_crashed d \<longrightarrow> (\<forall>c \<in> set (dm_heap d). cmd_ok c))"

lemma cmd_okD: "cmd_ok c \<Longrightarrow> cd_handler c = Some h \<Longrightarrow> \<exists>port. hd_listener h = Some port"
  by (auto simp: cmd_ok_def)

lemma set_cmd_sel [simp]:
  "dm_heap (set_cmd i c d) = (dm_heap d)[i := c]"
  "dm_commands (set_cmd i c d) = dm_commands d" "dm_tunnel (set_cmd i c d) = dm_tunnel d"
  "dm_subs (set_cmd i c d) = dm_subs d" "dm_crashed (set_cmd i c d) = dm_crashed d"
  by (simp_all add: set_cmd_def)

text \<open>Steps that change neither ids nor contexts nor the store keep \<open>store_ok\<close>.\<close>

definition same_registry ::
  "('st, 'pst, 'f, 'key, 'signer, 'sub) daemon \<Rightarrow>
   ('st, 'pst, 'f, 'key, 'signer, 'sub) daemon \<Rightarrow> bool" where
  "same_registry d d' \<longleftrightarrow>
     dm_commands d' = dm_commands d \<and> length (dm_heap d') = length (dm_heap d) \<and>
     (\<forall>i < length (dm_heap d). cd_id (dm_heap d' ! i) = cd_id (dm_heap d ! i) \<and>
                              cd_ctx (dm_heap d' ! i) = cd_ctx (dm_heap d ! i))"

lemma same_registry_store_ok: "store_ok L d \<Longrightarrow> same_registry d d' \<Longrightarrow> store_ok L d'"
  unfolding store_ok_def same_registry_def by metis

lemma same_registry_refl: "same_registry d d"
  by (simp add: same_registry_def)

lemma same_registry_trans: "same_registry d d' \<Longrightarrow> same_registry d' d'' \<Longrightarrow> same_registry d d''"
  by (simp add: same_registry_def)

lemma same_registry_set_cmd:
  assumes "same_registry d0 d" and "i < length (dm_heap d)"
    and "cd_id c = cd_id (dm_heap d ! i)" and "cd_ctx c = cd_ctx (dm_heap d ! i)"
  shows "same_registry d0 (set_cmd i c d)"
  using assms by (simp add: same_registry_def nth_list_update)

lemma same_registry_other:
  "same_registry d0 d \<Longrightarrow> dm_heap d' = dm_heap d \<Longrightarrow> dm_commands d' = dm_commands d \<Longrightarrow>
     same_registry d0 d'"
  by (simp add: same_registry_def)

lemma new_handler_listener:
  "new_ssh_server_handler L listen p = Inr h \<Longrightarrow> \<exists>port. listen = Inr port \<and> hd_listener h = Some port"
  by (auto simp: new_ssh_server_handler_def outcome_simps split: sum.splits)

lemma start_ssh_server_cases:
  assumes "cd_handler (dm_heap d ! i) = None"
  obtains (rejected) e where
      "new_ssh_server_handler (lb_ssh L) listen (cd_payload (dm_heap d ! i)) = Inl e"
      "start_ssh_server L listen i d = d"
  | (started) h port where
      "new_ssh_server_handler (lb_ssh L) listen (cd_payload (dm_heap d ! i)) = Inr h"
      "listen = Inr port" "hd_listener h = Some port"
      "start_ssh_server L listen i d =
        (set_cmd i ((dm_heap d ! i)\<lparr>cd_handler := Some h, cd_handling := HandlePending\<rparr>) d)
          \<lparr>dm_tunnel := snd (proxy_ssh (lb_proxies L) (lb_frp L) loopback port (dm_tunnel d))\<rparr>"
proof (cases "new_ssh_server_handler (lb_ssh L) listen (cd_payload (dm_heap d ! i))")
  case (Inl e)
  with rejected assms show ?thesis by (simp add: start_ssh_server_def Let_def)
next
  case (Inr h)
  from new_handler_listener [OF Inr] obtain port where "listen = Inr port" "hd_listener h = Some port"
    by blast
  with started [OF Inr] Inr assms show ?thesis
    by (simp add: start_ssh_server_def listen_port_def Let_def)
qed

section \<open>Preservation\<close>

text \<open>A step of one command's goroutines rewrites that command alone, keeping its id and context.\<close>

definition changes_only ::
  "nat \<Rightarrow> ('st, 'pst, 'f, 'key, 'signer, 'sub) daemon \<Rightarrow>
   ('st, 'pst, 'f, 'key, 'signer, 'sub) daemon \<Rightarrow> bool" where
  "changes_only i d d' \<longleftrightarrow>
     dm_commands d' = dm_commands d \<and>
     (\<exists>c. dm_heap d' = (dm_heap d)[i := c] \<and> cd_id c = cd_id (dm_heap d ! i) \<and>
          cd_ctx c = cd_ctx (dm_heap d ! i) \<and> (dm_crashed d' \<or> cmd_ok c))"

lemma changes_onlyI:
  assumes "dm_commands d' = dm_commands d" and "dm_heap d' = (dm_heap d)[i := c]"
    and "cd_id c = cd_id (dm_heap d ! i)" and "cd_ctx c = cd_ctx (dm_heap d ! i)"
    and "dm_crashed d' \<or> cmd_ok c"
  shows "changes_only i d d'"
  using assms unfolding changes_only_def by blast

lemma changes_only_inv:
  assumes "dm_inv L d" and "\<not> dm_crashed d" and "changes_only i d d'"
  shows "dm_inv L d'"
proof -
  from assms(3) obtain c where c: "dm_heap d' = (dm_heap d)[i := c]"
      "cd_id c = cd_id (dm_heap d ! i)" "cd_ctx c = cd_ctx (dm_heap d ! i)" "dm_crashed d' \<or> cmd_ok c"
    and reg: "dm_commands d' = dm_commands d"
    unfolding changes_only_def by blast
  have "same_registry d d'"
    using c reg by (auto simp: same_registry_def nth_list_update_if)
  moreover have "\<forall>c \<in> set (dm_heap d'). cmd_ok c" if "\<not> dm_crashed d'"
    using assms(1,2) c(1,4) that set_update_subset_insert [of "dm_heap d" i c]
    by (auto simp: dm_inv_def)
  ultimately show ?thesis
    using assms(1) same_registry_store_ok by (auto simp: dm_inv_def)
qed

lemma starting_no_handler: "cmd_ok c \<Longrightarrow> cd_pc c = Starting \<Longrightarrow> cd_handler c = None"
  by (cases "cd_handler c") (auto simp: cmd_ok_def)

lemma command_start_changes:
  assumes i: "i < length (dm_heap d)" and ok: "cmd_ok (dm_heap d ! i)"
    and pc: "cd_pc (dm_heap d ! i) = Starting" and "\<not> dm_crashed d"
  shows "changes_only i d (command_start L listen i d)"
    and "\<not> dm_crashed (command_start L listen i d)"
proof -
  let ?c = "dm_heap d ! i"
  have nh: "cd_handler ?c = None" using ok pc by (rule starting_no_handler)
  have plain: "cmd_ok (?c\<lparr>cd_pc := Waiting\<rparr>)" using ok nh by (simp add: cmd_ok_def)
  have "changes_only i d (command_start L listen i d) \<and> \<not> dm_crashed (command_start L listen i d)"
    using nh
  proof (cases rule: start_ssh_server_cases [where L = L and listen = listen])
    case (rejected e)
    with nh have "command_start L listen i d = set_cmd i (?c\<lparr>cd_pc := Waiting\<rparr>) d"
      by (simp add: command_start_def Let_def)
    with plain assms(4) show ?thesis by (auto intro: changes_onlyI)
  next
    case (started h port)
    show ?thesis
    proof (cases "cd_id ?c = start_ssh_command")
      case True
      let ?c' = "?c\<lparr>cd_handler := Some h, cd_handling := HandlePending, cd_pc := Waiting\<rparr>"
      have "cmd_ok ?c'" using ok True started(3) by (simp add: cmd_ok_def)
      moreover have "dm_heap (command_start L listen i d) = (dm_heap d)[i := ?c']"
        using nh True started(4) i by (simp add: command_start_def)
      ultimately show ?thesis
        using nh True started(4) assms(4)
        by (auto simp: command_start_def intro!: changes_onlyI [where c = ?c'])
    next
      case False
      with nh have "command_start L listen i d = set_cmd i (?c\<lparr>cd_pc := Waiting\<rparr>) d"
        by (simp add: command_start_def)
      with plain assms(4) show ?thesis by (auto intro: changes_onlyI)
    qed
  qed
  then show "changes_only i d (command_start L listen i d)"
    and "\<not> dm_crashed (command_start L listen i d)" by simp_all
qed

lemma run_handler_changes:
  assumes ok: "cmd_ok (dm_heap d ! i)" and "cd_handling (dm_heap d ! i) = HandlePending"
    and "\<not> dm_crashed d"
  shows "changes_only i d (run_handler L gen i d)" and "\<not> dm_crashed (run_handler L gen i d)"
proof -
  let ?c = "dm_heap d ! i"
  obtain h where h: "cd_handler ?c = Some h" using assms(1,2) by (auto simp: cmd_ok_def)
  obtain port where port: "hd_listener h = Some port" using cmd_okD [OF ok h] ..
  have upd: "cmd_ok (?c\<lparr>cd_handler := Some h', cd_handling := p\<rparr>)"
    if "hd_listener h' = Some port" "p \<noteq> HandlePending" for h' p
    using ok h that by (simp add: cmd_ok_def)
  show "changes_only i d (run_handler L gen i d)" and "\<not> dm_crashed (run_handler L gen i d)"
    using h port upd assms(3)
    by (auto simp: run_handler_def handle_def listen_port_def Let_def intro!: changes_onlyI
        split: sum.splits)
qed

text \<open>
  \<open>Command.Stop\<close> clears the listener before it asks for the port: with a handler the goroutine
  always panics, before \<open>UnProxy\<close>; without one it finishes.
\<close>

lemma command_stop_handler:
  assumes "cd_handler (dm_heap d ! i) = Some h" and "hd_listener h = Some port"
  shows "command_stop L i d =
    (set_cmd i ((dm_heap d ! i)\<lparr>cd_handler := Some (h\<lparr>hd_listener := None\<rparr>)\<rparr>) d)\<lparr>dm_crashed := True\<rparr>"
  using assms
  by (simp add: command_stop_def handler_stop_def listen_port_def Let_def split: outcome.split)

lemma command_stop_plain:
  assumes "cd_handler (dm_heap d ! i) = None"
  shows "command_stop L i d =
    set_cmd i (cancel_ctx ((dm_heap d ! i)\<lparr>cd_handler := None, cd_pc := Finished\<rparr>)) d"
  using assms by (simp add: command_stop_def Let_def)

lemma command_stop_changes:
  assumes ok: "cmd_ok (dm_heap d ! i)" and "cd_ctx (dm_heap d ! i) = Some True"
    and "\<not> dm_crashed d"
  shows "changes_only i d (command_stop L i d)"
    and "dm_crashed (command_stop L i d) \<longleftrightarrow> cd_handler (dm_heap d ! i) \<noteq> None"
proof -
  let ?c = "dm_heap d ! i"
  have "changes_only i d (command_stop L i d) \<and>
      (dm_crashed (command_stop L i d) \<longleftrightarrow> cd_handler ?c \<noteq> None)"
  proof (cases "cd_handler ?c")
    case None
    have "cmd_ok (cancel_ctx (?c\<lparr>cd_handler := None, cd_pc := Finished\<rparr>))"
      using ok None by (simp add: cmd_ok_def cancel_ctx_def)
    then show ?thesis
      using command_stop_plain [OF None] assms(2,3) None
      by (auto simp: cancel_ctx_def intro!: changes_onlyI)
  next
    case (Some h)
    obtain port where "hd_listener h = Some port" using cmd_okD [OF ok Some] ..
    from command_stop_handler [OF Some this] Some show ?thesis by (auto intro!: changes_onlyI)
  qed
  then show "changes_only i d (command_stop L i d)"
    and "dm_crashed (command_stop L i d) \<longleftrightarrow> cd_handler ?c \<noteq> None" by simp_all
qed

section \<open>The registry\<close>

locale command_registry = kv_store "lb_store L"
  for L :: "('st, 'pst, 'f, 'key, 'signer, 'sub) libs"
begin

abbreviation registered :: "('st, 'pst, 'f, 'key, 'signer, 'sub) daemon \<Rightarrow> string \<Rightarrow> nat option" where
  "registered d \<equiv> st_get (lb_store L) (dm_commands d)"

lemma add_command_known: "registered d (cd_id c) = Some i \<Longrightarrow> add_command L c d = d"
  by (simp add: add_command_def has_iff)

lemma add_command_new:
  "registered d (cd_id c) = None \<Longrightarrow> add_command L c d = add_commit L c d"
  by (simp add: add_command_def has_iff)

lemma add_commit_sel:
  "dm_heap (add_commit L c d) = dm_heap d @ [get_context c]"
  "registered (add_commit L c d) = (registered d)(cd_id c \<mapsto> length (dm_heap d))"
  "dm_tunnel (add_commit L c d) = dm_tunnel d" "dm_subs (add_commit L c d) = dm_subs d"
  "dm_crashed (add_commit L c d) = dm_crashed d"
  by (simp_all add: add_commit_def get_set)

lemma new_command_ok: "cmd_ok (get_context (new_command cid p))"
  by (simp add: cmd_ok_def get_context_def new_command_def)

lemma add_command_inv:
  assumes "dm_inv L d" shows "dm_inv L (add_command L (new_command cid p) d)"
proof (cases "registered d cid")
  case (Some i)
  then show ?thesis using assms add_command_known [of d "new_command cid p"]
    by (simp add: new_command_def)
next
  case None
  let ?c = "new_command cid p" and ?d = "add_commit L (new_command cid p) d"
  have ctx: "cd_id (get_context ?c) = cid" "cd_ctx (get_context ?c) = Some False" "cd_id ?c = cid"
    by (simp_all add: get_context_def new_command_def)
  have none: "\<not> (i < length (dm_heap d) \<and> cd_id (dm_heap d ! i) = cid \<and>
      cd_ctx (dm_heap d ! i) = Some False)" for i
    using assms None unfolding dm_inv_def store_ok_def by (metis option.distinct(1))
  have "store_ok L ?d"
    unfolding store_ok_def
  proof (intro allI)
    fix k i
    show "registered ?d k = Some i \<longleftrightarrow>
        i < length (dm_heap ?d) \<and> cd_id (dm_heap ?d ! i) = k \<and> cd_ctx (dm_heap ?d ! i) = Some False"
      using assms none [of i]
      by (auto simp: add_commit_sel ctx dm_inv_def store_ok_def nth_append less_Suc_eq)
  qed
  moreover have "\<forall>c \<in> set (dm_heap ?d). cmd_ok c" if "\<not> dm_crashed ?d"
    using assms that new_command_ok by (auto simp: dm_inv_def add_commit_sel)
  moreover have "add_command L ?c d = ?d"
    by (rule add_command_new) (simp only: ctx None)
  ultimately show ?thesis by (simp add: dm_inv_def)
qed

lemma on_message_inv: "dm_inv L d \<Longrightarrow> dm_inv L (on_message L doc d)"
  by (auto simp: on_message_def add_command_inv split: sum.split)

lemma remove_command_known:
  "registered d cid = Some i \<Longrightarrow>
     remove_command L cid d =
       (None, (set_cmd i (cancel_ctx (dm_heap d ! i)) d)
                \<lparr>dm_commands := st_remove (lb_store L) cid (dm_commands d)\<rparr>)"
  by (simp add: remove_command_def)

lemma remove_command_unknown:
  "registered d cid = None \<Longrightarrow> remove_command L cid d = (Some (Error ''command not found''), d)"
  by (simp add: remove_command_def)

lemma remove_command_inv:
  assumes "dm_inv L d" shows "dm_inv L (snd (remove_command L cid d))"
proof (cases "registered d cid")
  case None
  then show ?thesis using assms by (simp add: remove_command_unknown)
next
  case (Some i)
  let ?d = "snd (remove_command L cid d)"
  have i: "i < length (dm_heap d)" "cd_id (dm_heap d ! i) = cid" "cd_ctx (dm_heap d ! i) = Some False"
    using assms Some by (auto simp: dm_inv_def store_ok_def)
  have unique: "cd_id (dm_heap d ! j) = cid \<Longrightarrow> cd_ctx (dm_heap d ! j) = Some False \<Longrightarrow>
      j < length (dm_heap d) \<Longrightarrow> j = i" for j
    using assms Some unfolding dm_inv_def store_ok_def by (metis option.inject)
  have "store_ok L ?d"
    unfolding store_ok_def
  proof (intro allI)
    fix k j
    show "registered ?d k = Some j \<longleftrightarrow>
        j < length (dm_heap ?d) \<and> cd_id (dm_heap ?d ! j) = k \<and> cd_ctx (dm_heap ?d ! j) = Some False"
      using assms i unique [of j]
      by (auto simp: remove_command_known [OF Some] get_remove dm_inv_def store_ok_def
          cancel_ctx_def nth_list_update_if split: if_splits)
  qed
  moreover have "\<forall>c \<in> set (dm_heap ?d). cmd_ok c" if "\<not> dm_crashed ?d"
  proof -
    have all: "\<forall>c \<in> set (dm_heap d). cmd_ok c"
      using assms that by (simp add: dm_inv_def remove_command_known [OF Some])
    then have "cmd_ok (cancel_ctx (dm_heap d ! i))"
      using i(1) nth_mem [OF i(1)] by (auto simp: cmd_ok_def cancel_ctx_def)
    with all show ?thesis
      using set_update_subset_insert [of "dm_heap d" i "cancel_ctx (dm_heap d ! i)"]
      by (auto simp: remove_command_known [OF Some])
  qed
  ultimately show ?thesis by (simp add: dm_inv_def)
qed

lemma daemon_step_inv: "daemon_step L d ev d' \<Longrightarrow> dm_inv L d \<Longrightarrow> dm_inv L d'"
proof (induction rule: daemon_step.induct)
  case (start d i listen)
  then have "cmd_ok (dm_heap d ! i)" by (simp add: dm_inv_def)
  with start show ?case by (auto intro: changes_only_inv command_start_changes)
next
  case (handle d i gen)
  then have "cmd_ok (dm_heap d ! i)" by (simp add: dm_inv_def)
  with handle show ?case by (auto intro: changes_only_inv run_handler_changes)
next
  case (finish d i)
  then have "cmd_ok (dm_heap d ! i)" by (simp add: dm_inv_def)
  with finish show ?case by (auto intro: changes_only_inv command_stop_changes)
next
  case (run_exit d i err)
  then show ?case by (simp add: dm_inv_def store_ok_def)
qed (auto intro: on_message_inv remove_command_inv)

lemma new_command_manager_inv: "dm_inv L (new_command_manager L tunnel)"
  by (simp add: dm_inv_def store_ok_def new_command_manager_def get_new)

lemma dm_inv_subs: "dm_inv L (d\<lparr>dm_subs := ss\<rparr>) = dm_inv L d"
  by (simp add: dm_inv_def store_ok_def)

lemma initialize_inv: "dm_inv L d \<Longrightarrow> dm_inv L (snd (initialize L device d))"
  by (auto simp: initialize_def start_subscriptions_def add_command_inv dm_inv_subs split: sum.split)

lemma daemon_reach_inv: "daemon_reach L device d \<Longrightarrow> dm_inv L d"
proof (induction rule: daemon_reach.induct)
  case (init tunnel d)
  then show ?case using initialize_inv [OF new_command_manager_inv, of device tunnel] by simp
next
  case (step d ev d')
  from step.hyps(2) step.IH show ?case by (rule daemon_step_inv)
qed

text \<open>At most one live command per id, and it is the registered one.\<close>

lemma live_unique:
  assumes "dm_inv L d" and "i < length (dm_heap d)" and "cd_ctx (dm_heap d ! i) = Some False"
  shows "registered d (cd_id (dm_heap d ! i)) = Some i"
  using assms by (simp add: dm_inv_def store_ok_def)

lemma live_commands_equal:
  assumes "dm_inv L d" and "i < length (dm_heap d)" and "j < length (dm_heap d)"
    and "cd_ctx (dm_heap d ! i) = Some False" and "cd_ctx (dm_heap d ! j) = Some False"
    and "cd_id (dm_heap d ! i) = cd_id (dm_heap d ! j)"
  shows "i = j"
  using live_unique [OF assms(1,2,4)] live_unique [OF assms(1,3,5)] assms(6)
  by (metis option.inject)

lemma remove_command_effect:
  assumes "registered d cid = Some i" and "j < length (dm_heap d)"
  defines "d' \<equiv> snd (remove_command L cid d)"
  shows "registered d' = (registered d)(cid := None)"
    and "length (dm_heap d') = length (dm_heap d)"
    and "cd_id (dm_heap d' ! j) = cd_id (dm_heap d ! j)"
  using assms by (simp_all add: remove_command_known get_remove cancel_ctx_def nth_list_update_if)

lemma remove_all_ok:
  assumes "dm_inv L d" and "distinct js"
    and "\<And>i. i \<in> set js \<Longrightarrow> i < length (dm_heap d) \<and> registered d (cd_id (dm_heap d ! i)) = Some i"
  shows "fst (remove_all L js d) = None \<and> dm_inv L (snd (remove_all L js d)) \<and>
    registered (snd (remove_all L js d)) =
      (\<lambda>k. if \<exists>i \<in> set js. registered d k = Some i then None else registered d k)"
  using assms
proof (induction js arbitrary: d)
  case (Cons i js)
  let ?cid = "cd_id (dm_heap d ! i)"
  let ?d = "snd (remove_command L ?cid d)"
  have i: "i < length (dm_heap d)" "registered d ?cid = Some i" using Cons.prems(3) by auto
  note eff = remove_command_effect [OF i(2)]
  have rest: "j < length (dm_heap ?d) \<and> registered ?d (cd_id (dm_heap ?d ! j)) = Some j"
    if "j \<in> set js" for j
  proof -
    have j: "j < length (dm_heap d)" "registered d (cd_id (dm_heap d ! j)) = Some j" "j \<noteq> i"
      using Cons.prems(2,3) that by auto
    then have "cd_id (dm_heap d ! j) \<noteq> ?cid" using i(2) by auto
    with j eff [OF j(1)] show ?thesis by simp
  qed
  have inv: "dm_inv L ?d" using Cons.prems(1) by (rule remove_command_inv)
  have dist: "distinct js" using Cons.prems(2) by simp
  have eq: "remove_all L (i # js) d = remove_all L js ?d"
    by (simp add: remove_command_known [OF i(2)])
  note IH = Cons.IH [OF inv dist rest]
  have uniq: "registered d k = Some i \<Longrightarrow> k = ?cid" for k
    using Cons.prems(1) by (auto simp: dm_inv_def store_ok_def)
  have "(if \<exists>j \<in> set js. registered ?d k = Some j then None else registered ?d k) =
      (if \<exists>j \<in> set (i # js). registered d k = Some j then None else registered d k)" for k
    using uniq [of k] i(2) by (cases "k = ?cid") (auto simp: eff(1) [OF i(1)])
  then show ?case unfolding eq using IH by simp
qed simp

lemma all_registered:
  assumes inv: "dm_inv L d"
  defines "cmds \<equiv> map snd (st_all (lb_store L) (dm_commands d))"
  shows "distinct cmds" and "i \<in> set cmds \<longleftrightarrow> (\<exists>k. registered d k = Some i)"
    and "i \<in> set cmds \<Longrightarrow> i < length (dm_heap d) \<and> registered d (cd_id (dm_heap d ! i)) = Some i"
proof -
  let ?all = "st_all (lb_store L) (dm_commands d)"
  have mem: "(k, i) \<in> set ?all \<longleftrightarrow> registered d k = Some i" for k i by (rule in_all_iff)
  have "registered d k = Some i \<Longrightarrow> registered d k' = Some i \<Longrightarrow> k = k'" for k k' i
    using inv unfolding dm_inv_def store_ok_def by metis
  then have "inj_on snd (set ?all)" using mem by (intro inj_onI) auto
  moreover have "distinct ?all" using all_keys by (auto simp: keys_distinct_def distinct_map)
  ultimately show "distinct cmds" by (simp add: cmds_def distinct_map)
  show *: "i \<in> set cmds \<longleftrightarrow> (\<exists>k. registered d k = Some i)"
    using mem by (force simp: cmds_def image_iff)
  show "i < length (dm_heap d) \<and> registered d (cd_id (dm_heap d ! i)) = Some i" if "i \<in> set cmds"
    using that inv by (auto simp: * dm_inv_def store_ok_def)
qed

lemma stop_manager_ok:
  assumes inv: "dm_inv L d" and "drain_all (lb_drain L) (dm_subs d) = None"
  shows "fst (stop_manager L d) = None \<and> registered (snd (stop_manager L d)) = Map.empty \<and>
    (\<forall>c \<in> set (dm_heap (snd (stop_manager L d))). cd_ctx c \<noteq> Some False)"
proof -
  let ?ids = "map snd (st_all (lb_store L) (dm_commands d))"
  let ?d = "snd (remove_all L ?ids d)"
  note all = all_registered [OF inv]
  have *: "fst (remove_all L ?ids d) = None \<and> dm_inv L ?d \<and>
      registered ?d = (\<lambda>k. if \<exists>i \<in> set ?ids. registered d k = Some i then None else registered d k)"
    using remove_all_ok [OF inv] all(1,3) by blast
  have none: "registered ?d = Map.empty"
  proof
    fix k
    show "registered ?d k = None"
      using all(2) unfolding conjunct2 [OF conjunct2 [OF *]] by (cases "registered d k") auto
  qed
  have "cd_ctx c \<noteq> Some False" if "c \<in> set (dm_heap ?d)" for c
  proof
    assume live: "cd_ctx c = Some False"
    obtain i where "i < length (dm_heap ?d)" and "dm_heap ?d ! i = c"
      using \<open>c \<in> _\<close> by (auto simp: in_set_conv_nth)
    with live_unique [OF conjunct1 [OF conjunct2 [OF *]], of i] live none show False by simp
  qed
  with * none assms(2) show ?thesis by (simp add: stop_manager_def)
qed

end

interpretation demo_registry: command_registry
  "\<lparr>lb_store = alist_store, lb_proxies = P, lb_frp = F, lb_ssh = K, lb_subscribe = sub, lb_drain = dr\<rparr>"
  for P F K sub dr
  by unfold_locales
    (simp_all add: alist_store_def keys_distinct_def distinct_clearjunk map_of_clearjunk)

section \<open>Properties\<close>

text \<open>A daemon over the association-list stores, the listing FRP service and the sample SSH library.\<close>

type_synonym demo_daemon =
  "((string \<times> nat) list, (string \<times> proxy_config) list, proxy_config list, string, string \<times> string, string) daemon"

definition demo_daemon_libs ::
  "((string \<times> nat) list, (string \<times> proxy_config) list, proxy_config list, string, string \<times> string, string) libs" where
  "demo_daemon_libs =
     \<lparr>lb_store = alist_store, lb_proxies = proxy_alist, lb_frp = listing_frp, lb_ssh = demo_lib,
      lb_subscribe = Inr, lb_drain = (\<lambda>_. None)\<rparr>"

lemma demo_daemon_libs_sel [simp]:
  "lb_store demo_daemon_libs = alist_store" "lb_proxies demo_daemon_libs = proxy_alist"
  "lb_frp demo_daemon_libs = listing_frp" "lb_ssh demo_daemon_libs = demo_lib"
  "lb_subscribe demo_daemon_libs = Inr" "lb_drain demo_daemon_libs = (\<lambda>_. None)"
  by (simp_all add: demo_daemon_libs_def)

lemma demo_command_registry: "command_registry demo_daemon_libs"
  unfolding demo_daemon_libs_def by (rule demo_registry.command_registry_axioms)

definition demo_daemon :: demo_daemon where
  "demo_daemon = snd (initialize demo_daemon_libs ''rpi3'' (new_command_manager demo_daemon_libs demo_manager))"

lemma demo_daemon_reach: "daemon_reach demo_daemon_libs ''rpi3'' demo_daemon"
  by (rule daemon_reach.init [where tunnel = demo_manager])
    (simp add: demo_daemon_def initialize_def start_subscriptions_def)

lemma demo_daemon_eq:
  "demo_daemon =
     \<lparr>dm_commands = [(''enable-beszel'', 0)],
      dm_heap = [get_context (new_command ''enable-beszel'' (BeszelPayload default_beszel))],
      dm_tunnel = demo_manager, dm_subs = [''tessa.devices.rpi3.commands.json''],
      dm_crashed = False\<rparr>"
  by (simp add: demo_daemon_def initialize_def start_subscriptions_def new_command_manager_def
      add_command_def add_commit_def alist_store_def commands_subject_def
      enable_beszel_command_def new_command_def)

text \<open>A start-ssh request.\<close>

definition ssh_request :: "string \<Rightarrow> json option" where
  "ssh_request ca =
     Some (JObj [(''command'', JStr ''start-ssh''), (''payload'', JObj [(''ca_public_key'', JStr ca)])])"

lemma decode_ssh_request:
  "decode_request (ssh_request ca) =
     Inr \<lparr>cr_command = ''start-ssh'', cr_payload = JsonPayload (JObj [(''ca_public_key'', JStr ca)])\<rparr>"
  by (simp add: decode_request_def ssh_request_def decode_struct_def match_field_def
      set_request_field_def decode_string_def)



text \<open>The two steps of a start-ssh request: the message, then the command's goroutine.\<close>

definition ssh_requested ::
  "('st, 'pst, 'f, 'key, 'signer, 'sub) libs \<Rightarrow> json option \<Rightarrow> int result \<Rightarrow>
   ('st, 'pst, 'f, 'key, 'signer, 'sub) daemon \<Rightarrow> ('st, 'pst, 'f, 'key, 'signer, 'sub) daemon" where
  "ssh_requested L doc listen d =
     command_start L listen (length (dm_heap d)) (on_message L doc d)"

lemma on_message_start_ssh:
  assumes "command_registry L" and "st_get (lb_store L) (dm_commands d) start_ssh_command = None"
    and "decode_request doc = Inr req" and "cr_command req = start_ssh_command"
  shows "on_message L doc d = add_commit L (new_command start_ssh_command (cr_payload req)) d"
  using assms command_registry.add_command_new [OF assms(1)]
  by (simp add: on_message_def new_command_def)

lemma started_command:
  assumes "command_registry L" and "daemon_reach L device d" and "\<not> dm_crashed d"
    and "st_get (lb_store L) (dm_commands d) start_ssh_command = None"
    and "decode_request doc = Inr req" and "cr_command req = start_ssh_command"
  defines "d1 \<equiv> on_message L doc d" and "i \<equiv> length (dm_heap d)"
  shows "dm_heap d1 = dm_heap d @ [get_context (new_command start_ssh_command (cr_payload req))]"
    and "dm_tunnel d1 = dm_tunnel d" and "\<not> dm_crashed d1"
    and "st_get (lb_store L) (dm_commands d1) start_ssh_command = Some i"
    and "daemon_reach L device d1" and "daemon_step L d1 (EvStart i listen) (command_start L listen i d1)"
proof -
  have new: "d1 = add_commit L (new_command start_ssh_command (cr_payload req)) d"
    unfolding d1_def by (rule on_message_start_ssh [OF assms(1,4,5,6)])
  have id: "cd_id (new_command start_ssh_command (cr_payload req)) = start_ssh_command"
    by (simp add: new_command_def)
  note sel = command_registry.add_commit_sel [OF assms(1)]
  show heap: "dm_heap d1 = dm_heap d @ [get_context (new_command start_ssh_command (cr_payload req))]"
    and "dm_tunnel d1 = dm_tunnel d" and nc: "\<not> dm_crashed d1"
    and "st_get (lb_store L) (dm_commands d1) start_ssh_command = Some i"
    unfolding new sel id i_def using assms(3) by simp_all
  show "daemon_reach L device d1"
    unfolding d1_def by (rule daemon_reach.step [OF assms(2) daemon_step.message [OF assms(3)]])
  show "daemon_step L d1 (EvStart i listen) (command_start L listen i d1)"
    by (rule daemon_step.start [OF nc])
      (simp_all add: heap i_def get_context_def new_command_def)
qed

text \<open>
  C2.  A start-ssh request end to end: when the payload is accepted and no SSH command is
  registered, the message and the command's goroutine lead to a state in which the command is
  registered and waits, its handler is about to serve on the listener's port, the tunnel
  exposes \<open>127.0.0.1\<close> with that port under the device's name beside what it exposed before,
  and its client runs.
\<close>

theorem start_ssh_request_exposes_server:
  assumes "command_registry L" and "tunnel_libs (lb_proxies L) (lb_frp L) served"
    and "daemon_reach L device d" and "\<not> dm_crashed d"
    and "st_get (lb_store L) (dm_commands d) start_ssh_command = None"
    and "decode_request doc = Inr req" and "cr_command req = start_ssh_command"
    and "new_ssh_server_handler (lb_ssh L) (Inr port) (cr_payload req) = Inr h"
  defines "i \<equiv> length (dm_heap d)" and "d' \<equiv> ssh_requested L doc (Inr port) d"
  shows "daemon_reach L device d' \<and> \<not> dm_crashed d' \<and>
    get_command L start_ssh_command d' = Inr i \<and>
    cd_handler (dm_heap d' ! i) = Some h \<and> hd_listener h = Some port \<and>
    cd_handling (dm_heap d' ! i) = HandlePending \<and> cd_pc (dm_heap d' ! i) = Waiting \<and>
    st_get (lb_proxies L) (mg_proxies (dm_tunnel d')) =
      (st_get (lb_proxies L) (mg_proxies (dm_tunnel d)))
        (proxy_key loopback port \<mapsto> ssh_proxy (mg_device (dm_tunnel d)) loopback port) \<and>
    mg_cancel (dm_tunnel d') \<noteq> None"
proof -
  let ?d1 = "on_message L doc d"
  note start = started_command [OF assms(1,3-7)]
  have c: "dm_heap ?d1 ! i = get_context (new_command start_ssh_command (cr_payload req))"
    by (simp add: start(1) i_def)
  then have c': "cd_handler (dm_heap ?d1 ! i) = None" "cd_id (dm_heap ?d1 ! i) = start_ssh_command"
      "cd_payload (dm_heap ?d1 ! i) = cr_payload req"
    by (simp_all add: get_context_def new_command_def)
  have d': "d' = command_start L (Inr port) i ?d1" by (simp add: d'_def ssh_requested_def i_def)
  have reach: "daemon_reach L device d'"
    using daemon_reach.step [OF start(5,6)] by (simp add: d' i_def)
  have port: "hd_listener h = Some port" using new_handler_listener [OF assms(8)] by auto
  let ?p = "proxy_ssh (lb_proxies L) (lb_frp L) loopback port (dm_tunnel d)"
  have "dm_heap d' = (dm_heap ?d1)[i := (dm_heap ?d1 ! i)
        \<lparr>cd_handler := Some h, cd_handling := HandlePending, cd_pc := Waiting\<rparr>]"
    and "dm_tunnel d' = snd ?p" and "\<not> dm_crashed d'" and "dm_commands d' = dm_commands ?d1"
    using c' assms(8) port start(2,3)
    by (simp_all add: d' command_start_def start_ssh_server_def listen_port_def Let_def i_def start(1))
  moreover have "i < length (dm_heap ?d1)" by (simp add: start(1) i_def)
  ultimately show ?thesis
    using reach port start(4) tunnel_libs.proxy_ssh_exposed [OF assms(2)]
      tunnel_libs.proxy_ssh_runs [OF assms(2)]
    by (simp add: get_command_def i_def)
qed

lemma demo_payload_accepted:
  "new_ssh_server_handler demo_lib (Inr 40000) (JsonPayload (JObj [(''ca_public_key'', JStr ''ca'')])) =
     Inr \<lparr>hd_trusted = ''ca'', hd_host = None, hd_listener = Some 40000, hd_server = None\<rparr>"
  by (simp add: new_ssh_server_handler_def ssh_payload_config_def json_payload_to_config_def
      marshal_payload_def decode_struct_def match_field_def set_ssh_field_strings
      zero_ssh_server_config_def demo_lib_def wrap_error_def)

lemma demo_ssh_free: "st_get alist_store (dm_commands demo_daemon) start_ssh_command = None"
  by (simp add: demo_daemon_eq alist_store_def start_ssh_command_def)

definition demo_ssh_daemon :: demo_daemon where
  "demo_ssh_daemon = ssh_requested demo_daemon_libs (ssh_request ''ca'') (Inr 40000) demo_daemon"

theorem start_ssh_request_exposes_server_witness:
  "get_command demo_daemon_libs ''start-ssh'' demo_ssh_daemon = Inr 1 \<and>
   map_of (mg_proxies (dm_tunnel demo_ssh_daemon)) (proxy_key ''127.0.0.1'' 40000) =
     Some (ssh_proxy ''rpi3'' ''127.0.0.1'' 40000)"
proof -
  have libs: "tunnel_libs (lb_proxies demo_daemon_libs) (lb_frp demo_daemon_libs) (\<lambda>f. f)"
    using demo_libs by simp
  have up: "\<not> dm_crashed demo_daemon" "length (dm_heap demo_daemon) = 1"
      "mg_device (dm_tunnel demo_daemon) = ''rpi3''"
    by (simp_all add: demo_daemon_eq demo_manager_def)
  have free: "st_get (lb_store demo_daemon_libs) (dm_commands demo_daemon) start_ssh_command = None"
    using demo_ssh_free by simp
  have acc: "new_ssh_server_handler (lb_ssh demo_daemon_libs) (Inr 40000)
      (cr_payload \<lparr>cr_command = ''start-ssh'',
        cr_payload = JsonPayload (JObj [(''ca_public_key'', JStr ''ca'')])\<rparr>) =
      Inr \<lparr>hd_trusted = ''ca'', hd_host = None, hd_listener = Some 40000, hd_server = None\<rparr>"
    using demo_payload_accepted by simp
  have cmd: "cr_command \<lparr>cr_command = ''start-ssh'',
      cr_payload = JsonPayload (JObj [(''ca_public_key'', JStr ''ca'')])\<rparr> = start_ssh_command"
    by (simp add: start_ssh_command_def)
  have get: "st_get (lb_proxies demo_daemon_libs) = map_of" by (simp add: alist_store_def)
  from start_ssh_request_exposes_server [OF demo_command_registry libs demo_daemon_reach up(1) free
      decode_ssh_request cmd acc]
  show ?thesis
    unfolding demo_ssh_daemon_def get up(2,3) start_ssh_command_def loopback_def by simp
qed

text \<open>
  C30.  A start-ssh request whose payload is rejected: no handler exists and the tunnel is as
  before, but the command stays registered and its goroutine waits for a cancellation, so
  every later start-ssh request, whatever its payload, is taken for a duplicate and ignored.
\<close>

theorem rejected_start_ssh_blocks_retries:
  assumes "command_registry L" and "daemon_reach L device d" and "\<not> dm_crashed d"
    and "st_get (lb_store L) (dm_commands d) start_ssh_command = None"
    and "decode_request doc = Inr req" and "cr_command req = start_ssh_command"
    and "new_ssh_server_handler (lb_ssh L) listen (cr_payload req) = Inl e"
    and "decode_request retry = Inr req'" and "cr_command req' = start_ssh_command"
  defines "i \<equiv> length (dm_heap d)" and "d' \<equiv> ssh_requested L doc listen d"
  shows "daemon_reach L device d' \<and> get_command L start_ssh_command d' = Inr i \<and>
    cd_handler (dm_heap d' ! i) = None \<and> cd_pc (dm_heap d' ! i) = Waiting \<and>
    cd_ctx (dm_heap d' ! i) = Some False \<and>
    dm_tunnel d' = dm_tunnel d \<and> on_message L retry d' = d'"
proof -
  let ?d1 = "on_message L doc d"
  note start = started_command [OF assms(1-6)]
  have c: "dm_heap ?d1 ! i = get_context (new_command start_ssh_command (cr_payload req))"
    by (simp add: start(1) i_def)
  then have c': "cd_handler (dm_heap ?d1 ! i) = None" "cd_id (dm_heap ?d1 ! i) = start_ssh_command"
      "cd_payload (dm_heap ?d1 ! i) = cr_payload req" "cd_ctx (dm_heap ?d1 ! i) = Some False"
    by (simp_all add: get_context_def new_command_def)
  have d': "d' = command_start L listen i ?d1" by (simp add: d'_def ssh_requested_def i_def)
  have reach: "daemon_reach L device d'"
    using daemon_reach.step [OF start(5,6)] by (simp add: d' i_def)
  have eq: "d' = set_cmd i ((dm_heap ?d1 ! i)\<lparr>cd_pc := Waiting\<rparr>) ?d1"
    using c' assms(7) by (simp add: d' command_start_def start_ssh_server_def Let_def)
  have len: "i < length (dm_heap ?d1)" by (simp add: start(1) i_def)
  have reg: "st_get (lb_store L) (dm_commands d') start_ssh_command = Some i"
    using start(4) by (simp add: eq i_def)
  have "on_message L retry d' = d'"
    using command_registry.add_command_known [OF assms(1), of d'] reg assms(8,9)
    by (simp add: on_message_def new_command_def)
  with reach reg len c' start(2) show ?thesis by (simp add: eq get_command_def)
qed

theorem rejected_start_ssh_blocks_retries_witness:
  "let d' = ssh_requested demo_daemon_libs (ssh_request ''ca'') (Inl (Error ''address in use'')) demo_daemon
   in on_message demo_daemon_libs (ssh_request ''ca'') d' = d' \<and> cd_handler (dm_heap d' ! 1) = None"
proof -
  have up: "\<not> dm_crashed demo_daemon" "length (dm_heap demo_daemon) = 1" by (simp_all add: demo_daemon_eq)
  have free: "st_get (lb_store demo_daemon_libs) (dm_commands demo_daemon) start_ssh_command = None"
    using demo_ssh_free by simp
  have rej: "new_ssh_server_handler (lb_ssh demo_daemon_libs) (Inl (Error ''address in use''))
      (cr_payload \<lparr>cr_command = ''start-ssh'',
        cr_payload = JsonPayload (JObj [(''ca_public_key'', JStr ''ca'')])\<rparr>) =
      Inl (Error ''address in use'')"
    by (simp add: new_ssh_server_handler_def ssh_payload_config_def json_payload_to_config_def
        marshal_payload_def decode_struct_def match_field_def set_ssh_field_strings
        zero_ssh_server_config_def demo_lib_def wrap_error_def)
  have cmd: "cr_command \<lparr>cr_command = ''start-ssh'',
      cr_payload = JsonPayload (JObj [(''ca_public_key'', JStr ''ca'')])\<rparr> = start_ssh_command"
    by (simp add: start_ssh_command_def)
  from rejected_start_ssh_blocks_retries [OF demo_command_registry demo_daemon_reach up(1) free
      decode_ssh_request cmd rej decode_ssh_request cmd]
  show ?thesis unfolding Let_def up(2) by blast
qed


lemma demo_ssh_daemon_reach: "daemon_reach demo_daemon_libs ''rpi3'' demo_ssh_daemon"
proof -
  have "\<not> dm_crashed demo_daemon" by (simp add: demo_daemon_eq)
  note start = started_command [OF demo_command_registry demo_daemon_reach this _ decode_ssh_request]
  show ?thesis
    unfolding demo_ssh_daemon_def ssh_requested_def
    by (rule daemon_reach.step [OF start(5,6)])
      (simp_all add: demo_ssh_free, simp_all add: start_ssh_command_def)
qed

lemma demo_ssh_daemon_sel:
  "dm_heap demo_ssh_daemon ! 1 =
     \<lparr>cd_id = ''start-ssh'', cd_payload = JsonPayload (JObj [(''ca_public_key'', JStr ''ca'')]),
      cd_handler = Some \<lparr>hd_trusted = ''ca'', hd_host = None, hd_listener = Some 40000, hd_server = None\<rparr>,
      cd_ctx = Some False, cd_pc = Waiting, cd_handling = HandlePending\<rparr>"
  "length (dm_heap demo_ssh_daemon) = 2" "\<not> dm_crashed demo_ssh_daemon"
  "dm_subs demo_ssh_daemon = [''tessa.devices.rpi3.commands.json'']"
  "st_get alist_store (dm_commands demo_ssh_daemon) ''start-ssh'' = Some 1"
  by (simp_all add: demo_ssh_daemon_def ssh_requested_def on_message_def decode_ssh_request
      add_command_def add_commit_def demo_daemon_eq command_start_def start_ssh_server_def
      get_context_def new_command_def demo_payload_accepted listen_port_def Let_def
      start_ssh_command_def alist_store_def)

definition demo_removed :: demo_daemon where
  "demo_removed = snd (remove_command demo_daemon_libs ''start-ssh'' demo_ssh_daemon)"

lemma demo_removed_reach: "daemon_reach demo_daemon_libs ''rpi3'' demo_removed"
  unfolding demo_removed_def
  by (rule daemon_reach.step [OF demo_ssh_daemon_reach daemon_step.remove])
    (simp add: demo_ssh_daemon_sel)

lemma demo_removed_sel:
  "cd_pc (dm_heap demo_removed ! 1) = Waiting" "cd_ctx (dm_heap demo_removed ! 1) = Some True"
  "cd_handler (dm_heap demo_removed ! 1) = cd_handler (dm_heap demo_ssh_daemon ! 1)"
  "length (dm_heap demo_removed) = 2" "\<not> dm_crashed demo_removed"
  by (simp_all add: demo_removed_def remove_command_def cancel_ctx_def demo_ssh_daemon_sel
      demo_ssh_daemon_sel [unfolded One_nat_def])


text \<open>
  Shutting the manager down.  When every subscription drains, \<open>Stop\<close> succeeds, no command
  is registered any more and none has a live context; when a subscription does not drain,
  its error is returned and every command stays as it was.
\<close>

theorem stop_manager_ends_every_command:
  assumes "command_registry L" and "daemon_reach L device d"
  defines "r \<equiv> stop_manager L d"
  shows "(case drain_all (lb_drain L) (dm_subs d) of
      None \<Rightarrow> fst r = None \<and> (\<forall>cid. get_command L cid (snd r) = Inl (Error ''command not found'')) \<and>
        (\<forall>c \<in> set (dm_heap (snd r)). cd_ctx c \<noteq> Some False)
    | Some e \<Rightarrow> r = (Some e, d))"
proof (cases "drain_all (lb_drain L) (dm_subs d)")
  case None
  have "dm_inv L d" by (rule command_registry.daemon_reach_inv [OF assms(1,2)])
  from command_registry.stop_manager_ok [OF assms(1) this None] None show ?thesis
    by (simp add: r_def get_command_def)
next
  case (Some e)
  then show ?thesis by (simp add: r_def stop_manager_def)
qed

theorem stop_manager_ends_every_command_witness:
  "get_command demo_daemon_libs ''start-ssh'' (snd (stop_manager demo_daemon_libs demo_ssh_daemon)) =
     Inl (Error ''command not found'')"
  using stop_manager_ends_every_command [OF demo_command_registry demo_ssh_daemon_reach]
  by (simp add: demo_ssh_daemon_sel)

text \<open>
  \<open>AddCommand\<close> tests the store and registers the command in two calls of the store, and
  \<open>Initialize\<close> subscribes before it adds its own command.  \<open>initialize_raced\<close> is
  \<open>Initialize\<close> with a message handled between those two calls.
\<close>

definition initialize_raced ::
  "('st, 'pst, 'f, 'key, 'signer, 'sub) libs \<Rightarrow> string \<Rightarrow> json option \<Rightarrow>
   ('st, 'pst, 'f, 'key, 'signer, 'sub) daemon \<Rightarrow>
   error option \<times> ('st, 'pst, 'f, 'key, 'signer, 'sub) daemon" where
  "initialize_raced L device doc d =
     (case start_subscriptions L device d of
        (Some e, d') \<Rightarrow> (Some e, d')
      | (None, d') \<Rightarrow>
          let c = new_command enable_beszel_command (BeszelPayload default_beszel) in
          if st_has (lb_store L) (dm_commands d') (cd_id c) then (None, on_message L doc d')
          else (None, add_commit L c (on_message L doc d')))"

lemma initialize_raced_result:
  fixes L :: "('st, 'pst, 'f, 'key, 'signer, 'sub) libs" and tunnel :: "('pst, 'f) manager"
  assumes "command_registry L" and "lb_subscribe L (commands_subject device) = Inr sub"
    and "decode_request doc = Inr req" and "cr_command req = enable_beszel_command"
  defines "d0 \<equiv> (new_command_manager L tunnel)\<lparr>dm_subs := [sub]\<rparr>"
  shows "initialize_raced L device doc (new_command_manager L tunnel) =
    (None, add_commit L (new_command enable_beszel_command (BeszelPayload default_beszel))
             (add_commit L (new_command enable_beszel_command (cr_payload req)) d0))"
proof -
  have kv: "kv_store (lb_store L)" using assms(1) by (simp add: command_registry_def)
  have sub: "start_subscriptions L device (new_command_manager L tunnel) = (None, d0)"
    using assms(2) by (simp add: start_subscriptions_def new_command_manager_def d0_def)
  have "st_get (lb_store L) (dm_commands d0) k = None" for k
    using kv_store.get_new [OF kv] by (simp add: d0_def new_command_manager_def)
  then show ?thesis
    using assms(3,4) by (simp add: initialize_raced_def sub on_message_def add_command_def
        kv_store.has_iff [OF kv] new_command_def Let_def)
qed

text \<open>
  C31.  The race of the two calls.  A request for the default command that arrives while
  \<open>Initialize\<close> is adding it leads to two live commands of one name.  The store holds the
  second; removing the command by name ends the second only, a second removal finds nothing,
  and the first stays alive with no way left to end it.
\<close>

theorem raced_add_leaves_orphan:
  fixes L :: "('st, 'pst, 'f, 'key, 'signer, 'sub) libs" and tunnel :: "('pst, 'f) manager"
  assumes "command_registry L" and "lb_subscribe L (commands_subject device) = Inr sub"
    and "decode_request doc = Inr req" and "cr_command req = enable_beszel_command"
  defines "d \<equiv> snd (initialize_raced L device doc (new_command_manager L tunnel))"
  defines "d' \<equiv> snd (remove_command L enable_beszel_command d)"
  shows "length (dm_heap d) = 2 \<and>
    (\<forall>c \<in> set (dm_heap d). cd_id c = enable_beszel_command \<and> cd_ctx c = Some False) \<and>
    get_command L enable_beszel_command d = Inr 1 \<and>
    cd_ctx (dm_heap d' ! 1) = Some True \<and> cd_ctx (dm_heap d' ! 0) = Some False \<and>
    remove_command L enable_beszel_command d' = (Some (Error ''command not found''), d')"
proof -
  have kv: "kv_store (lb_store L)" using assms(1) by (simp add: command_registry_def)
  note get = kv_store.get_set [OF kv] kv_store.get_remove [OF kv]
  have d: "d = add_commit L (new_command enable_beszel_command (BeszelPayload default_beszel))
      (add_commit L (new_command enable_beszel_command (cr_payload req))
        ((new_command_manager L tunnel)\<lparr>dm_subs := [sub]\<rparr>))"
    unfolding d_def initialize_raced_result [OF assms(1-4)] by simp
  have heap: "dm_heap d =
      [get_context (new_command enable_beszel_command (cr_payload req)),
       get_context (new_command enable_beszel_command (BeszelPayload default_beszel))]"
    by (simp add: d add_commit_def new_command_manager_def)
  have reg: "st_get (lb_store L) (dm_commands d) enable_beszel_command = Some 1"
    by (simp add: d add_commit_def get new_command_manager_def new_command_def)
  have d': "d' = (set_cmd 1 (cancel_ctx (dm_heap d ! 1)) d)
      \<lparr>dm_commands := st_remove (lb_store L) enable_beszel_command (dm_commands d)\<rparr>"
    using reg by (simp add: d'_def remove_command_def)
  have "st_get (lb_store L) (dm_commands d') enable_beszel_command = None" by (simp add: d' get)
  then have "remove_command L enable_beszel_command d' = (Some (Error ''command not found''), d')"
    by (simp add: remove_command_def)
  then show ?thesis
    using reg by (simp add: heap d' get_command_def get_context_def new_command_def cancel_ctx_def)
qed

theorem raced_add_leaves_orphan_witness:
  "let d = snd (initialize_raced demo_daemon_libs ''rpi3''
       (Some (JObj [(''command'', JStr ''enable-beszel'')])) (new_command_manager demo_daemon_libs demo_manager))
   in length (dm_heap d) = 2 \<and> get_command demo_daemon_libs ''enable-beszel'' d = Inr 1"
proof -
  have sub: "lb_subscribe demo_daemon_libs (commands_subject ''rpi3'') = Inr (commands_subject ''rpi3'')"
    by simp
  have dec: "decode_request (Some (JObj [(''command'', JStr ''enable-beszel'')])) =
      Inr \<lparr>cr_command = ''enable-beszel'', cr_payload = NilPayload\<rparr>"
    by (simp add: decode_request_def decode_struct_def match_field_def set_request_field_def
        decode_string_def)
  have cmd: "cr_command \<lparr>cr_command = ''enable-beszel'', cr_payload = NilPayload\<rparr> = enable_beszel_command"
    by (simp add: enable_beszel_command_def)
  from raced_add_leaves_orphan [OF demo_command_registry sub dec cmd, of demo_manager]
  show ?thesis unfolding enable_beszel_command_def Let_def by blast
qed

end
