(* ===== verification/SSH_Conn.thy ===== *)
theory SSH_Conn
  imports SSH_Handler
begin

text \<open>
  \<open>internal/ssh/conn.go\<close>: the requests of one session channel.

  A request's payload is a list of bytes.  \<open>parse_dims\<close> reads the machine's own byte order
  through an unsafe pointer, which is little endian on the platforms the daemon is built for;
  \<open>pty_dims\<close> keeps the arithmetic on \<open>req.Payload[3]\<close> at the width of a byte.
  \<open>serve_requests\<close> is the loop of the goroutine that serves a channel: its result is what it
  does to the outside, in order, or the panic that ends it (and with it the process).
\<close>

unbundle bit_operations_syntax

section \<open>Terminal dimensions\<close>

type_synonym byte = "8 word"

text \<open>The bytes of a word, as the protocol and as the machine order them.\<close>

definition be32 :: "32 word \<Rightarrow> byte list" where
  "be32 w = [ucast (drop_bit 24 w), ucast (drop_bit 16 w), ucast (drop_bit 8 w), ucast w]"

definition le32_at :: "byte list \<Rightarrow> nat \<Rightarrow> 32 word" where
  "le32_at b i =
     ucast (b ! i) OR push_bit 8 (ucast (b ! (i + 1))) OR push_bit 16 (ucast (b ! (i + 2)))
       OR push_bit 24 (ucast (b ! (i + 3)))"

definition parse_dims :: "byte list \<Rightarrow> 32 word \<times> 32 word" where
  "parse_dims b = (if length b < 8 then (0, 0) else (le32_at b 0, le32_at b 4))"

definition set_winsize :: "32 word \<Rightarrow> 32 word \<Rightarrow> winsize" where
  "set_winsize w h = \<lparr>ws_row = ucast h, ws_col = ucast w, ws_xpixel = 0, ws_ypixel = 0\<rparr>"

definition pty_dims :: "byte list \<Rightarrow> (32 word \<times> 32 word) outcome" where
  "pty_dims payload =
     (if length payload < 4 then Panics ''index out of range''
      else
        let term_len = payload ! 3 in
        if length payload < unat (term_len + 4) then Panics ''slice bounds out of range''
        else Returns (parse_dims (drop (unat (term_len + 4)) payload)))"

section \<open>The request loop\<close>

datatype channel_request =
    PtyReq "byte list"
  | ShellReq
  | WindowChange "byte list"
  | OtherReq string "byte list"

datatype channel_effect = StartPty | Resize winsize | Reply bool

text \<open>
  One request: whether a terminal exists (\<open>ptmx != nil\<close>) and what \<open>pty.Start\<close> reports.  The
  result is the effects, whether a terminal exists afterwards and whether the loop goes on.
\<close>

definition serve_request ::
  "error option \<Rightarrow> channel_request \<Rightarrow> bool \<Rightarrow> (channel_effect list \<times> bool \<times> bool) outcome" where
  "serve_request start_err r ptmx =
     (case r of
        PtyReq payload \<Rightarrow>
          (case pty_dims payload of
             Panics m \<Rightarrow> Panics m
           | Returns (w, h) \<Rightarrow>
               (case start_err of
                  Some _ \<Rightarrow> Returns ([Reply False], ptmx, False)
                | None \<Rightarrow> Returns ([StartPty, Resize (set_winsize w h), Reply True], True, True)))
      | ShellReq \<Rightarrow> Returns ([Reply True], ptmx, True)
      | WindowChange payload \<Rightarrow>
          Returns (if ptmx then (case parse_dims payload of (w, h) \<Rightarrow> [Resize (set_winsize w h)]) else [],
                   ptmx, True)
      | OtherReq _ _ \<Rightarrow> Returns ([], ptmx, True))"

fun serve_requests ::
  "(channel_request \<times> error option) list \<Rightarrow> bool \<Rightarrow> channel_effect list \<Rightarrow>
   channel_effect list \<times> unit outcome" where
  "serve_requests [] ptmx done = (done, Returns ())"
| "serve_requests ((r, start_err) # rs) ptmx done =
     (case serve_request start_err r ptmx of
        Panics m \<Rightarrow> (done, Panics m)
      | Returns (es, ptmx', continue) \<Rightarrow>
          if continue then serve_requests rs ptmx' (done @ es) else (done @ es, Returns ()))"

section \<open>Lemmas\<close>

text \<open>Reading four protocol bytes in machine order swaps them; the low half of the result is the
  high half of the word, swapped.\<close>

lemma nth_be32:
  assumes "take 4 (drop i b) = be32 w"
  shows "b ! i = ucast (drop_bit 24 w)" "b ! (i + 1) = ucast (drop_bit 16 w)"
    "b ! (i + 2) = ucast (drop_bit 8 w)" "b ! (i + 3) = ucast w"
proof -
  have len: "i + 4 \<le> length b"
    using arg_cong [OF assms, of length] by (simp add: be32_def)
  have "b ! (i + k) = be32 w ! k" if "k < 4" for k
  proof -
    have "take 4 (drop i b) ! k = b ! (i + k)" using that len by simp
    then show ?thesis by (simp only: assms)
  qed
  from this [of 0] this [of 1] this [of 2] this [of 3]
  show "b ! i = ucast (drop_bit 24 w)" "b ! (i + 1) = ucast (drop_bit 16 w)"
    "b ! (i + 2) = ucast (drop_bit 8 w)" "b ! (i + 3) = ucast w"
    by (simp_all add: be32_def numeral_2_eq_2 numeral_3_eq_3)
qed

lemma ucast_le32_be32:
  assumes "take 4 (drop i b) = be32 w"
  shows "(ucast (le32_at b i) :: 16 word) =
    ucast (drop_bit 24 w) OR push_bit 8 (ucast (drop_bit 16 w))"
  unfolding le32_at_def nth_be32 [OF assms]
  by (rule bit_word_eqI) (auto simp: bit_simps dest: bit_imp_le_length)

lemma high_half_zero:
  fixes w :: "32 word"
  assumes "unat w < 65536" shows "drop_bit 24 w = 0" and "drop_bit 16 w = 0"
proof -
  have *: "unat (drop_bit n w) = unat w div 2 ^ n" for n
    by (rule trans [OF unat_drop_bit_eq drop_bit_eq_div])
  have "unat (drop_bit 24 w) = 0" and "unat (drop_bit 16 w) = 0"
    unfolding * using assms by simp_all
  then show "drop_bit 24 w = 0" and "drop_bit 16 w = 0" by (simp_all only: unat_eq_0)
qed

text \<open>A \<open>pty-req\<close> payload as the protocol lays it out; the string is prefixed by its length.\<close>

definition pty_payload :: "byte list \<Rightarrow> 32 word \<Rightarrow> 32 word \<Rightarrow> byte list \<Rightarrow> byte list" where
  "pty_payload term w h rest = be32 (word_of_nat (length term)) @ term @ be32 w @ be32 h @ rest"

lemma length_be32 [simp]: "length (be32 w) = 4"
  by (simp add: be32_def)

lemma pty_payload_nth3: "pty_payload term w h rest ! 3 = word_of_nat (length term)"
proof -
  have "pty_payload term w h rest ! 3 = ucast (word_of_nat (length term) :: 32 word)"
    by (simp add: pty_payload_def be32_def numeral_3_eq_3)
  also have "\<dots> = word_of_nat (length term)"
    by (rule bit_word_eqI) (simp add: bit_simps)
  finally show ?thesis .
qed

lemma pty_payload_dims:
  assumes "length term < 252"
  shows "pty_dims (pty_payload term w h rest) = Returns (parse_dims (be32 w @ be32 h @ rest))"
proof -
  have "unat (word_of_nat (length term) + 4 :: 8 word) = length term + 4"
    using assms by (simp add: unat_word_ariths unsigned_of_nat take_bit_eq_mod)
  then show ?thesis
    by (simp add: pty_dims_def Let_def pty_payload_nth3) (simp add: pty_payload_def)
qed

lemma pty_payload_returns: "\<not> panics (pty_dims (pty_payload term w h rest))"
proof -
  have "unat (word_of_nat (length term) + 4 :: 8 word) \<le> length term + 4"
    by (simp add: unat_word_ariths unsigned_of_nat take_bit_eq_mod mod_add_left_eq)
  then show ?thesis
    by (simp add: pty_dims_def Let_def pty_payload_nth3) (simp add: pty_payload_def)
qed

lemma parse_dims_winsize:
  "(case parse_dims (be32 w @ be32 h @ rest) of (a, b) \<Rightarrow> set_winsize a b) =
     \<lparr>ws_row = ucast (drop_bit 24 h) OR push_bit 8 (ucast (drop_bit 16 h)),
      ws_col = ucast (drop_bit 24 w) OR push_bit 8 (ucast (drop_bit 16 w)),
      ws_xpixel = 0, ws_ypixel = 0\<rparr>"
proof -
  have "take 4 (drop 0 (be32 w @ be32 h @ rest)) = be32 w"
    and "take 4 (drop 4 (be32 w @ be32 h @ rest)) = be32 h" by simp_all
  from this [THEN ucast_le32_be32] show ?thesis by (simp add: parse_dims_def set_winsize_def)
qed

section \<open>Properties\<close>

text \<open>
  C35.  The window size a client asks for, in a \<open>pty-req\<close> with a terminal name of fewer than
  252 bytes or in a \<open>window-change\<close>, never reaches the terminal: the bytes are read in the
  wrong order and the conversion to 16 bits keeps the half that is zero, so every size below
  65536 in both directions is set as 0 by 0.
\<close>

theorem window_size_becomes_zero:
  assumes "unat w < 65536" and "unat h < 65536" and "length term < 252"
  shows "serve_request None (PtyReq (pty_payload term w h rest)) ptmx =
      Returns ([StartPty, Resize \<lparr>ws_row = 0, ws_col = 0, ws_xpixel = 0, ws_ypixel = 0\<rparr>, Reply True],
        True, True) \<and>
    serve_request e (WindowChange (be32 w @ be32 h @ rest)) True =
      Returns ([Resize \<lparr>ws_row = 0, ws_col = 0, ws_xpixel = 0, ws_ypixel = 0\<rparr>], True, True)"
  using high_half_zero [OF assms(1)] high_half_zero [OF assms(2)] parse_dims_winsize [of w h rest]
  by (simp add: serve_request_def pty_payload_dims [OF assms(3)] split_beta)

theorem window_size_becomes_zero_witness:
  "serve_request None (PtyReq (pty_payload [0x78, 0x74, 0x65, 0x72, 0x6D] 80 24 [])) False =
     Returns ([StartPty, Resize \<lparr>ws_row = 0, ws_col = 0, ws_xpixel = 0, ws_ypixel = 0\<rparr>, Reply True],
       True, True)"
  using window_size_becomes_zero [of 80 24 "[0x78, 0x74, 0x65, 0x72, 0x6D]" "[]" False] by simp

definition short_pty :: "channel_request \<Rightarrow> bool" where
  "short_pty r =
     (case r of
        PtyReq p \<Rightarrow> length p < 4 \<or> length p < (unat (p ! 3) + 4) mod 256
      | _ \<Rightarrow> False)"

lemma serve_request_panics: "panics (serve_request e r ptmx) \<longleftrightarrow> short_pty r"
proof (cases r)
  case (PtyReq p)
  have "unat (p ! 3 + 4) = (unat (p ! 3) + 4) mod 256" by (simp add: unat_word_ariths)
  then show ?thesis
    using PtyReq by (auto simp: serve_request_def pty_dims_def short_pty_def Let_def
        split: option.split prod.split)
qed (simp_all add: serve_request_def short_pty_def)

lemma serve_requests_panics:
  assumes "\<forall>(r, e) \<in> set rs. e = None"
  shows "panics (snd (serve_requests rs ptmx es)) \<longleftrightarrow> (\<exists>(r, e) \<in> set rs. short_pty r)"
  using assms
proof (induction rs ptmx es rule: serve_requests.induct)
  case (2 r e rs ptmx es)
  show ?case
  proof (cases "serve_request e r ptmx")
    case (Returns x)
    obtain out ptmx' continue where x: "x = (out, ptmx', continue)" by (metis prod_cases3)
    have "continue"
      using 2(2) Returns x by (auto simp: serve_request_def split: channel_request.splits
          outcome.splits prod.splits)
    with 2 Returns x serve_request_panics [of e r ptmx] show ?thesis by simp
  next
    case (Panics m)
    with serve_request_panics [of e r ptmx] show ?thesis by simp
  qed
qed simp

lemma pty_payload_not_short: "\<not> short_pty (PtyReq (pty_payload term w h rest))"
  using pty_payload_returns [of "term" w h rest] unfolding serve_request_panics [of None _ False, symmetric]
  by (auto simp: serve_request_def split: outcome.splits)

text \<open>
  C36.  When a channel's goroutine panics, which ends the process, as long as terminals can be
  started: exactly when some \<open>pty-req\<close> has a payload shorter than the offset computed from
  the payload's fourth byte, in the arithmetic of bytes.  Payloads laid out as the protocol says never do, whatever
  they contain; three bytes from a client that is logged in are enough.
\<close>

theorem channel_panics_iff:
  assumes "\<forall>(r, e) \<in> set rs. e = None"
  shows "(panics (snd (serve_requests rs ptmx es)) \<longleftrightarrow> (\<exists>(r, e) \<in> set rs. short_pty r)) \<and>
    \<not> short_pty (PtyReq (pty_payload term w h rest))"
proof
  show "panics (snd (serve_requests rs ptmx es)) \<longleftrightarrow> (\<exists>(r, e) \<in> set rs. short_pty r)"
    using assms by (rule serve_requests_panics)
  show "\<not> short_pty (PtyReq (pty_payload term w h rest))" by (rule pty_payload_not_short)
qed


theorem channel_panics_iff_witness:
  "panics (snd (serve_requests [(ShellReq, None), (PtyReq [0, 0, 0], None)] False [])) \<and>
   \<not> panics (snd (serve_requests [(PtyReq (pty_payload [] 80 24 []), None), (ShellReq, None)] False []))"
  using channel_panics_iff [of "[(ShellReq, None), (PtyReq [0, 0, 0], None)]" False "[]" "[]" 80 24 "[]"]
    channel_panics_iff [of "[(PtyReq (pty_payload [] 80 24 []), None), (ShellReq, None)]" False "[]" "[]" 80 24 "[]"]
  by (simp add: short_pty_def)

end
