(* ===== verification/SSH_Controller.thy ===== *)
theory SSH_Controller
  imports SSH_Conn Go_Base64 Store
begin

text \<open>
  \<open>internal/ssh\<close>: the standalone SSH server: \<open>private_key.go\<close>, \<open>session.go\<close>, the connection
  life cycle of \<open>conn.go\<close> and \<open>controller.go\<close>.

  \<open>controller\<close> is the struct \<open>sshServerController\<close> with what its goroutines share: the
  connections accepted so far are the list \<open>cl_conns\<close>; a session of the session manager names
  its connection by index.  \<open>cl_locked\<close> holds after a panic inside a critical section without
  a deferred unlock; \<open>cl_crashed\<close> after a panic in a goroutine of the package.  \<open>cl_run\<close> is where
  the goroutine of \<open>Run\<close> stands, \<open>cl_accepting\<close> whether its accept loop is alive.

  \<open>ssh_step\<close> interleaves the calls with the steps of the accept loop, the connection goroutines
  and \<open>Run\<close>.  Two connections that are both alive have different remote addresses.
\<close>

section \<open>Private keys\<close>

definition parse_private_key :: "(string \<Rightarrow> 'signer result) \<Rightarrow> string \<Rightarrow> 'signer result outcome" where
  "parse_private_key parse k =
     (if length k < 10 then Panics ''slice bounds out of range''
      else if take 10 k = ''-----BEGIN'' then Returns (parse k)
      else
        (case b64_decode k of
           None \<Rightarrow> Returns (Inl (Error ''illegal base64 data''))
         | Some bytes \<Rightarrow> Returns (parse bytes)))"

section \<open>Sessions\<close>

record session =
  se_conn :: nat
  se_channel :: "nat option"

type_synonym session_manager = "(string \<times> session) list"

definition sm_add :: "string \<Rightarrow> nat \<Rightarrow> session_manager \<Rightarrow> session_manager" where
  "sm_add addr conn sm = AList.update addr \<lparr>se_conn = conn, se_channel = None\<rparr> sm"

definition sm_set_channel :: "string \<Rightarrow> nat \<Rightarrow> session_manager \<Rightarrow> session_manager" where
  "sm_set_channel addr ch sm =
     (case map_of sm addr of
        None \<Rightarrow> sm
      | Some s \<Rightarrow> AList.update addr (s\<lparr>se_channel := Some ch\<rparr>) sm)"

definition sm_remove :: "string \<Rightarrow> session_manager \<Rightarrow> session_manager" where
  "sm_remove addr sm = AList.delete addr sm"

text \<open>
  \<open>BroadcastAndClose\<close>, which holds the manager's mutex from the announcement to the last
  \<open>Close\<close>: the channels that get the message and the connections that are closed.
\<close>

definition broadcast_channels :: "session_manager \<Rightarrow> nat list" where
  "broadcast_channels sm = List.map_filter se_channel (map snd sm)"

definition closed_conns :: "session_manager \<Rightarrow> nat list" where
  "closed_conns sm = map (se_conn \<circ> snd) sm"

section \<open>The controller\<close>

record start_request =
  sr_ca_public_key :: string
  sr_host_private_key :: string

record ('key, 'signer) server_config =
  sv_ca :: 'key
  sv_host_key :: 'signer

datatype conn_phase = Handshaking | Established | Ended

record conn =
  cn_addr :: string
  cn_phase :: conn_phase
  cn_cleaned :: bool
  cn_closed :: bool

datatype run_pc = NotRunning | Selecting | Draining | AwaitingCleanup

record ('key, 'signer) controller =
  cl_config :: "('key, 'signer) server_config option"
  cl_running :: bool
  cl_listener :: "bool option"
  cl_shutdown :: "unit chan option"
  cl_sessions :: session_manager
  cl_wg :: int
  cl_conns :: "conn list"
  cl_run :: run_pc
  cl_accepting :: bool
  cl_locked :: bool
  cl_crashed :: bool

definition new_session_manager :: session_manager where
  "new_session_manager = []"

definition new_ssh_server_controller :: "('key, 'signer) controller" where
  "new_ssh_server_controller =
     \<lparr>cl_config = None, cl_running = False, cl_listener = None, cl_shutdown = None,
      cl_sessions = new_session_manager, cl_wg = 0, cl_conns = [], cl_run = NotRunning, cl_accepting = False,
      cl_locked = False, cl_crashed = False\<rparr>"

text \<open>The \<open>PublicKeyCallback\<close> of the configuration; \<open>auth\<close> is \<open>CertChecker.Authenticate\<close>.\<close>

definition public_key_callback ::
  "('key, 'signer) ssh_lib \<Rightarrow> (('key \<Rightarrow> bool) \<Rightarrow> string \<Rightarrow> 'key \<Rightarrow> 'perms result) \<Rightarrow>
   ('key, 'signer) server_config \<Rightarrow> string \<Rightarrow> 'key \<Rightarrow> 'perms result" where
  "public_key_callback L auth cfg user k =
     (case sl_as_cert L k of
        None \<Rightarrow> Inl (Error ''authentication failed: not a certificate'')
      | Some _ \<Rightarrow> auth (\<lambda>a. sl_marshal L a = sl_marshal L (sv_ca cfg)) user k)"

text \<open>The part \<open>PrepareConfigAndListener\<close> and \<open>Start\<close> have in common, up to \<open>net.Listen\<close>.\<close>

definition configure ::
  "('key, 'signer) ssh_lib \<Rightarrow> error option \<Rightarrow> start_request \<Rightarrow> bool \<Rightarrow>
   ('key, 'signer) server_config result outcome" where
  "configure L listen req running =
     (if running then Returns (Inl (Error ''SSH server is already running''))
      else
        (case sl_parse_authorized L (sr_ca_public_key req) of
           Inl (Error m) \<Rightarrow> Returns (Inl (Error (''failed to parse CA public key: '' @ m)))
         | Inr ca \<Rightarrow>
             (case parse_private_key (sl_parse_private L) (sr_host_private_key req) of
                Panics m \<Rightarrow> Panics m
              | Returns (Inl (Error m)) \<Rightarrow>
                  Returns (Inl (Error (''failed to parse host private key: '' @ m)))
              | Returns (Inr private) \<Rightarrow>
                  (case listen of
                     Some (Error m) \<Rightarrow> Returns (Inl (Error (''failed to listen on 2222: '' @ m)))
                   | None \<Rightarrow> Returns (Inr \<lparr>sv_ca = ca, sv_host_key = private\<rparr>)))))"

definition prepare_config_and_listener ::
  "('key, 'signer) ssh_lib \<Rightarrow> error option \<Rightarrow> start_request \<Rightarrow> ('key, 'signer) controller \<Rightarrow>
   error option outcome \<times> ('key, 'signer) controller" where
  "prepare_config_and_listener L listen req c =
     (case configure L listen req (cl_running c) of
        Panics m \<Rightarrow> (Panics m, c\<lparr>cl_locked := True\<rparr>)
      | Returns (Inl e) \<Rightarrow> (Returns (Some e), c)
      | Returns (Inr cfg) \<Rightarrow>
          (Returns None, c\<lparr>cl_config := Some cfg, cl_listener := Some True, cl_running := True,
                           cl_shutdown := Some (make_chan 0)\<rparr>))"

definition start_controller ::
  "('key, 'signer) ssh_lib \<Rightarrow> error option \<Rightarrow> start_request \<Rightarrow> ('key, 'signer) controller \<Rightarrow>
   error option outcome \<times> ('key, 'signer) controller" where
  "start_controller L listen req c =
     (case configure L listen req (cl_running c) of
        Panics m \<Rightarrow> (Panics m, c\<lparr>cl_locked := True\<rparr>)
      | Returns (Inl e) \<Rightarrow> (Returns (Some e), c)
      | Returns (Inr cfg) \<Rightarrow>
          (Returns None, c\<lparr>cl_listener := Some True, cl_running := True,
                           cl_shutdown := Some (make_chan 0)\<rparr>))"

text \<open>\<open>Stop\<close>; its unlock is deferred, so a panic leaves the mutex free.\<close>

definition stop_controller ::
  "('key, 'signer) controller \<Rightarrow> unit outcome \<times> ('key, 'signer) controller" where
  "stop_controller c =
     (if \<not> cl_running c then (Returns (), c)
      else
        (case cl_shutdown c of
           None \<Rightarrow> (Panics ''close of nil channel'', c)
         | Some ch \<Rightarrow>
             (case close_chan ch of
                Panics m \<Rightarrow> (Panics m, c)
              | Returns ch' \<Rightarrow> (Returns (), c\<lparr>cl_shutdown := Some ch'\<rparr>))))"

definition is_running :: "('key, 'signer) controller \<Rightarrow> bool" where
  "is_running c = cl_running c"

text \<open>\<open>Wait\<close> returns once the wait group's counter is zero.\<close>

definition wait_returns :: "('key, 'signer) controller \<Rightarrow> bool" where
  "wait_returns c \<longleftrightarrow> cl_wg c = 0"

section \<open>Connections\<close>

definition set_conn :: "nat \<Rightarrow> conn \<Rightarrow> ('key, 'signer) controller \<Rightarrow> ('key, 'signer) controller" where
  "set_conn i cn c = c\<lparr>cl_conns := (cl_conns c)[i := cn]\<rparr>"

text \<open>The accept loop takes a connection and starts its goroutine.\<close>

definition accept_conn :: "string \<Rightarrow> ('key, 'signer) controller \<Rightarrow> ('key, 'signer) controller" where
  "accept_conn addr c =
     c\<lparr>cl_wg := cl_wg c + 1,
       cl_conns := cl_conns c @
         [\<lparr>cn_addr = addr, cn_phase = Handshaking, cn_cleaned = False, cn_closed = False\<rparr>]\<rparr>"

text \<open>
  \<open>handleConnection\<close>: the handshake, with the outcome of \<open>ssh.NewServerConn\<close>; the cleanup, which
  runs at most once; the end of the loop over the connection's channels.
\<close>

definition handshake ::
  "nat \<Rightarrow> error option outcome \<Rightarrow> ('key, 'signer) controller \<Rightarrow> ('key, 'signer) controller" where
  "handshake i r c =
     (case r of
        Panics _ \<Rightarrow> c\<lparr>cl_crashed := True\<rparr>
      | Returns (Some _) \<Rightarrow>
          (set_conn i ((cl_conns c ! i)\<lparr>cn_phase := Ended, cn_cleaned := True\<rparr>) c)
            \<lparr>cl_wg := cl_wg c - 1\<rparr>
      | Returns None \<Rightarrow>
          (set_conn i ((cl_conns c ! i)\<lparr>cn_phase := Established\<rparr>) c)
            \<lparr>cl_sessions := sm_add (cn_addr (cl_conns c ! i)) i (cl_sessions c)\<rparr>)"

definition cleanup :: "nat \<Rightarrow> ('key, 'signer) controller \<Rightarrow> ('key, 'signer) controller" where
  "cleanup i c =
     (if cn_cleaned (cl_conns c ! i) then c
      else
        (set_conn i ((cl_conns c ! i)\<lparr>cn_cleaned := True\<rparr>) c)
          \<lparr>cl_sessions := sm_remove (cn_addr (cl_conns c ! i)) (cl_sessions c),
           cl_wg := cl_wg c - 1\<rparr>)"

definition open_channel :: "nat \<Rightarrow> nat \<Rightarrow> ('key, 'signer) controller \<Rightarrow> ('key, 'signer) controller" where
  "open_channel i ch c =
     c\<lparr>cl_sessions := sm_set_channel (cn_addr (cl_conns c ! i)) ch (cl_sessions c)\<rparr>"

text \<open>One turn of the loop over the channels a client asks for; \<open>accepted\<close> is what \<open>Accept\<close> gives.\<close>

datatype channel_reply = Rejected string | AcceptFailed | Accepted

definition new_channel ::
  "nat \<Rightarrow> string \<Rightarrow> nat result \<Rightarrow> ('key, 'signer) controller \<Rightarrow>
   channel_reply \<times> ('key, 'signer) controller" where
  "new_channel i ty accepted c =
     (if ty \<noteq> ''session'' then (Rejected ''unknown channel type'', c)
      else
        (case accepted of
           Inl _ \<Rightarrow> (AcceptFailed, c)
         | Inr ch \<Rightarrow> (Accepted, open_channel i ch c)))"

text \<open>
  The goroutine that serves the requests of a channel, from its first request on: it has no
  \<open>recover\<close>, so a panic ends the process.
\<close>

definition serve_channel ::
  "(channel_request \<times> error option) list \<Rightarrow> ('key, 'signer) controller \<Rightarrow> ('key, 'signer) controller" where
  "serve_channel rs c =
     (case snd (serve_requests rs False []) of
        Panics _ \<Rightarrow> c\<lparr>cl_crashed := True\<rparr>
      | Returns _ \<Rightarrow> c)"

text \<open>The shell of one of the connection's channels exits: that goroutine runs the cleanup.\<close>

definition shell_exit :: "nat \<Rightarrow> ('key, 'signer) controller \<Rightarrow> ('key, 'signer) controller" where
  "shell_exit i c = cleanup i c"

definition channels_end :: "nat \<Rightarrow> ('key, 'signer) controller \<Rightarrow> ('key, 'signer) controller" where
  "channels_end i c = cleanup i (set_conn i ((cl_conns c ! i)\<lparr>cn_phase := Ended\<rparr>) c)"

section \<open>Run\<close>

text \<open>
  \<open>Run\<close> starts the accept loop, which panics on a listener that is nil; one \<open>Run\<close> at a time.  What
  \<open>ssh.NewServerConn\<close> does with a nil configuration is left open, with one it does not panic.
\<close>

text \<open>After the select: close the listener under the mutex.\<close>

definition close_listener :: "('key, 'signer) controller \<Rightarrow> ('key, 'signer) controller" where
  "close_listener c =
     c\<lparr>cl_listener := map_option (\<lambda>_. False) (cl_listener c), cl_run := Draining\<rparr>"

text \<open>After the accept loop ended: \<open>BroadcastAndClose\<close>.\<close>

definition broadcast_and_close :: "('key, 'signer) controller \<Rightarrow> ('key, 'signer) controller" where
  "broadcast_and_close c =
     c\<lparr>cl_conns := map (\<lambda>(i, cn). if i \<in> set (closed_conns (cl_sessions c)) then cn\<lparr>cn_closed := True\<rparr> else cn)
                     (enumerate 0 (cl_conns c)),
       cl_run := AwaitingCleanup\<rparr>"

definition finish_run :: "('key, 'signer) controller \<Rightarrow> ('key, 'signer) controller" where
  "finish_run c =
     c\<lparr>cl_running := False, cl_config := None, cl_listener := None, cl_shutdown := None,
       cl_run := NotRunning\<rparr>"

section \<open>Steps\<close>

datatype ssh_event =
    EvPrepare start_request "error option"
  | EvStart start_request "error option"
  | EvStop
  | EvRun
  | EvAccept string
  | EvAcceptEnd
  | EvHandshake nat "error option outcome"
  | EvChannel nat string "nat result"
  | EvRequests nat "(channel_request \<times> error option) list"
  | EvShellExit nat
  | EvConnEnd nat
  | EvShutdown
  | EvTimer
  | EvBroadcast
  | EvFinish

definition alive :: "('key, 'signer) controller \<Rightarrow> nat \<Rightarrow> conn_phase \<Rightarrow> bool" where
  "alive c i ph \<longleftrightarrow> i < length (cl_conns c) \<and> cn_phase (cl_conns c ! i) = ph"

inductive ssh_step ::
  "('key, 'signer) ssh_lib \<Rightarrow> ('key, 'signer) controller \<Rightarrow> ssh_event \<Rightarrow>
   ('key, 'signer) controller \<Rightarrow> bool"
  for L :: "('key, 'signer) ssh_lib" where
  prepare: "\<not> cl_crashed c \<Longrightarrow> \<not> cl_locked c \<Longrightarrow>
    ssh_step L c (EvPrepare req listen) (snd (prepare_config_and_listener L listen req c))"
| start: "\<not> cl_crashed c \<Longrightarrow> \<not> cl_locked c \<Longrightarrow>
    ssh_step L c (EvStart req listen) (snd (start_controller L listen req c))"
| stop: "\<not> cl_crashed c \<Longrightarrow> \<not> cl_locked c \<Longrightarrow> ssh_step L c EvStop (snd (stop_controller c))"
| run: "\<not> cl_crashed c \<Longrightarrow> cl_run c = NotRunning \<Longrightarrow> cl_listener c \<noteq> None \<Longrightarrow>
    ssh_step L c EvRun (c\<lparr>cl_run := Selecting, cl_accepting := True\<rparr>)"
| run_nil: "\<not> cl_crashed c \<Longrightarrow> cl_run c = NotRunning \<Longrightarrow> cl_listener c = None \<Longrightarrow>
    ssh_step L c EvRun (c\<lparr>cl_crashed := True\<rparr>)"
| accept: "\<not> cl_crashed c \<Longrightarrow> cl_accepting c \<Longrightarrow> cl_listener c = Some True \<Longrightarrow>
    \<forall>cn \<in> set (cl_conns c). cn_addr cn = addr \<longrightarrow> cn_phase cn = Ended \<Longrightarrow>
    ssh_step L c (EvAccept addr) (accept_conn addr c)"
| accept_end: "\<not> cl_crashed c \<Longrightarrow> cl_accepting c \<Longrightarrow> cl_listener c = Some False \<Longrightarrow>
    ssh_step L c EvAcceptEnd (c\<lparr>cl_accepting := False\<rparr>)"
| handshake: "\<not> cl_crashed c \<Longrightarrow> alive c i Handshaking \<Longrightarrow> cl_config c \<noteq> None \<longrightarrow> \<not> panics r \<Longrightarrow>
    ssh_step L c (EvHandshake i r) (handshake i r c)"
| channel: "\<not> cl_crashed c \<Longrightarrow> alive c i Established \<Longrightarrow>
    ssh_step L c (EvChannel i ty accepted) (snd (new_channel i ty accepted c))"
| requests: "\<not> cl_crashed c \<Longrightarrow> alive c i Established \<Longrightarrow>
    ssh_step L c (EvRequests i rs) (serve_channel rs c)"
| shell_exit: "\<not> cl_crashed c \<Longrightarrow> alive c i Established \<Longrightarrow>
    ssh_step L c (EvShellExit i) (shell_exit i c)"
| conn_end: "\<not> cl_crashed c \<Longrightarrow> alive c i Established \<Longrightarrow>
    ssh_step L c (EvConnEnd i) (channels_end i c)"
| shutdown: "\<not> cl_crashed c \<Longrightarrow> \<not> cl_locked c \<Longrightarrow> cl_run c = Selecting \<Longrightarrow>
    cl_shutdown c = Some ch \<Longrightarrow> ch_closed ch \<Longrightarrow> ssh_step L c EvShutdown (close_listener c)"
| timer: "\<not> cl_crashed c \<Longrightarrow> \<not> cl_locked c \<Longrightarrow> cl_run c = Selecting \<Longrightarrow>
    ssh_step L c EvTimer (close_listener c)"
| broadcast: "\<not> cl_crashed c \<Longrightarrow> cl_run c = Draining \<Longrightarrow> \<not> cl_accepting c \<Longrightarrow>
    ssh_step L c EvBroadcast (broadcast_and_close c)"
| finish: "\<not> cl_crashed c \<Longrightarrow> \<not> cl_locked c \<Longrightarrow> cl_run c = AwaitingCleanup \<Longrightarrow> wait_returns c \<Longrightarrow>
    ssh_step L c EvFinish (finish_run c)"

inductive ssh_reach :: "('key, 'signer) ssh_lib \<Rightarrow> ('key, 'signer) controller \<Rightarrow> bool"
  for L :: "('key, 'signer) ssh_lib" where
  init: "ssh_reach L new_ssh_server_controller"
| step: "ssh_reach L c \<Longrightarrow> ssh_step L c ev c' \<Longrightarrow> ssh_reach L c'"

inductive_cases ssh_stepE: "ssh_step L c ev c'"

section \<open>Invariant\<close>

text \<open>
  The wait group counts the connections that were not cleaned up; the session manager holds
  exactly the established ones among them, under their addresses; and the controller's fields
  follow the life cycle of \<open>Run\<close>.
\<close>

definition uncleaned :: "conn list \<Rightarrow> nat" where
  "uncleaned cns = length (filter (\<lambda>cn. \<not> cn_cleaned cn) cns)"

definition conns_ok :: "conn list \<Rightarrow> bool" where
  "conns_ok cns \<longleftrightarrow>
     (\<forall>cn \<in> set cns. (cn_phase cn = Handshaking \<longrightarrow> \<not> cn_cleaned cn) \<and> (cn_phase cn = Ended \<longrightarrow> cn_cleaned cn)) \<and>
     (\<forall>i < length cns. \<forall>j < length cns. i \<noteq> j \<and> cn_phase (cns ! i) \<noteq> Ended \<and>
        cn_phase (cns ! j) \<noteq> Ended \<longrightarrow> cn_addr (cns ! i) \<noteq> cn_addr (cns ! j))"

definition session_conn :: "session_manager \<Rightarrow> string \<Rightarrow> nat option" where
  "session_conn sm addr = map_option se_conn (map_of sm addr)"

definition sessions_ok :: "session_manager \<Rightarrow> conn list \<Rightarrow> bool" where
  "sessions_ok sm cns \<longleftrightarrow>
     keys_distinct sm \<and>
     (\<forall>addr i. session_conn sm addr = Some i \<longleftrightarrow>
        i < length cns \<and> cn_phase (cns ! i) = Established \<and> \<not> cn_cleaned (cns ! i) \<and>
        cn_addr (cns ! i) = addr)"

definition lifecycle_ok :: "('key, 'signer) controller \<Rightarrow> bool" where
  "lifecycle_ok c \<longleftrightarrow>
     (cl_listener c = None \<longleftrightarrow> \<not> cl_running c) \<and> (cl_shutdown c = None \<longleftrightarrow> \<not> cl_running c) \<and>
     (cl_run c \<noteq> NotRunning \<longrightarrow> cl_running c) \<and> (\<not> cl_running c \<longrightarrow> cl_config c = None) \<and>
     (cl_listener c = Some False \<longleftrightarrow> cl_run c = Draining \<or> cl_run c = AwaitingCleanup) \<and>
     (cl_accepting c \<longrightarrow> cl_run c = Selecting \<or> cl_run c = Draining) \<and>
     (cl_run c = NotRunning \<longrightarrow> uncleaned (cl_conns c) = 0)"

definition ssh_inv :: "('key, 'signer) controller \<Rightarrow> bool" where
  "ssh_inv c \<longleftrightarrow>
     cl_wg c = int (uncleaned (cl_conns c)) \<and> conns_ok (cl_conns c) \<and>
     sessions_ok (cl_sessions c) (cl_conns c) \<and> lifecycle_ok c"

lemma uncleaned_simps [simp]:
  "uncleaned [] = 0" "uncleaned (cn # cns) = (if cn_cleaned cn then 0 else 1) + uncleaned cns"
  "uncleaned (cns @ ds) = uncleaned cns + uncleaned ds"
  by (simp_all add: uncleaned_def)

lemma uncleaned_update:
  "i < length cns \<Longrightarrow>
     uncleaned (cns[i := cn]) + (if cn_cleaned (cns ! i) then 0 else 1) =
     uncleaned cns + (if cn_cleaned cn then 0 else 1)"
proof (induction cns arbitrary: i)
  case (Cons d cns)
  then show ?case by (cases i) auto
qed simp

lemma session_conn_simps:
  "session_conn (sm_add addr i sm) = (session_conn sm)(addr \<mapsto> i)"
  "session_conn (sm_remove addr sm) = (session_conn sm)(addr := None)"
  "session_conn (sm_set_channel addr ch sm) = session_conn sm"
  by (auto simp: session_conn_def sm_add_def sm_remove_def sm_set_channel_def update_conv'
      delete_conv' fun_eq_iff split: option.split)

lemma session_keys_distinct:
  "keys_distinct sm \<Longrightarrow> keys_distinct (sm_add addr i sm)"
  "keys_distinct sm \<Longrightarrow> keys_distinct (sm_remove addr sm)"
  "keys_distinct sm \<Longrightarrow> keys_distinct (sm_set_channel addr ch sm)"
  by (auto simp: keys_distinct_def sm_add_def sm_remove_def sm_set_channel_def distinct_update
      distinct_delete split: option.split)

text \<open>One connection changes: what it takes to keep each part of the invariant.\<close>

definition listed :: "conn \<Rightarrow> bool" where
  "listed cn \<longleftrightarrow> cn_phase cn = Established \<and> \<not> cn_cleaned cn"

definition conn_ok :: "conn \<Rightarrow> bool" where
  "conn_ok cn \<longleftrightarrow>
     (cn_phase cn = Handshaking \<longrightarrow> \<not> cn_cleaned cn) \<and> (cn_phase cn = Ended \<longrightarrow> cn_cleaned cn)"

lemma conns_okD:
  "conns_ok cns \<Longrightarrow> i < length cns \<Longrightarrow> conn_ok (cns ! i)"
  "conns_ok cns \<Longrightarrow> i < length cns \<Longrightarrow> j < length cns \<Longrightarrow> cn_phase (cns ! i) \<noteq> Ended \<Longrightarrow>
     cn_phase (cns ! j) \<noteq> Ended \<Longrightarrow> cn_addr (cns ! i) = cn_addr (cns ! j) \<Longrightarrow> i = j"
  unfolding conns_ok_def conn_ok_def by (blast dest: nth_mem)+

lemma conns_okI:
  assumes "\<And>i. i < length cns \<Longrightarrow> conn_ok (cns ! i)"
    and "\<And>i j. i < length cns \<Longrightarrow> j < length cns \<Longrightarrow> cn_phase (cns ! i) \<noteq> Ended \<Longrightarrow>
      cn_phase (cns ! j) \<noteq> Ended \<Longrightarrow> cn_addr (cns ! i) = cn_addr (cns ! j) \<Longrightarrow> i = j"
  shows "conns_ok cns"
  using assms unfolding conns_ok_def all_set_conv_all_nth conn_ok_def by blast

lemma conns_ok_update:
  assumes "conns_ok cns" and "i < length cns" and "conn_ok cn" and "cn_addr cn = cn_addr (cns ! i)"
    and "cn_phase (cns ! i) \<noteq> Ended"
  shows "conns_ok (cns[i := cn])"
proof (rule conns_okI)
  show "conn_ok (cns[i := cn] ! j)" if "j < length (cns[i := cn])" for j
    using that assms(2,3) conns_okD(1) [OF assms(1)] by (cases "j = i") auto
  show "j = k" if "j < length (cns[i := cn])" "k < length (cns[i := cn])"
      "cn_phase (cns[i := cn] ! j) \<noteq> Ended" "cn_phase (cns[i := cn] ! k) \<noteq> Ended"
      "cn_addr (cns[i := cn] ! j) = cn_addr (cns[i := cn] ! k)" for j k
    using that assms(2,4,5) conns_okD(2) [OF assms(1), of j k]
    by (cases "j = i"; cases "k = i") simp_all
qed

lemma conns_ok_append:
  assumes "conns_ok cns" and "conn_ok cn"
    and "\<forall>d \<in> set cns. cn_addr d = cn_addr cn \<longrightarrow> cn_phase d = Ended"
  shows "conns_ok (cns @ [cn])"
proof (rule conns_okI)
  show "conn_ok ((cns @ [cn]) ! j)" if "j < length (cns @ [cn])" for j
    using that assms(2) conns_okD(1) [OF assms(1)] by (cases "j = length cns") (auto simp: nth_append)
  show "j = k" if "j < length (cns @ [cn])" "k < length (cns @ [cn])"
      "cn_phase ((cns @ [cn]) ! j) \<noteq> Ended" "cn_phase ((cns @ [cn]) ! k) \<noteq> Ended"
      "cn_addr ((cns @ [cn]) ! j) = cn_addr ((cns @ [cn]) ! k)" for j k
    using that assms(3) conns_okD(2) [OF assms(1), of j k] nth_mem [of j cns] nth_mem [of k cns]
    by (cases "j = length cns"; cases "k = length cns") (auto simp: nth_append)
qed

lemma sessions_okD:
  "sessions_ok sm cns \<Longrightarrow> session_conn sm addr = Some i \<longleftrightarrow>
     i < length cns \<and> listed (cns ! i) \<and> cn_addr (cns ! i) = addr"
  by (auto simp: sessions_ok_def listed_def)

lemma sessions_okI:
  assumes "keys_distinct sm"
    and "\<And>addr i. session_conn sm addr = Some i \<longleftrightarrow>
      i < length cns \<and> listed (cns ! i) \<and> cn_addr (cns ! i) = addr"
  shows "sessions_ok sm cns"
  using assms by (auto simp: sessions_ok_def listed_def)

lemma sessions_ok_same:
  assumes "sessions_ok sm cns" and "\<not> listed (cns ! i)" and "\<not> listed cn" and "i < length cns"
  shows "sessions_ok sm (cns[i := cn])"
proof (rule sessions_okI)
  show "keys_distinct sm" using assms(1) by (simp add: sessions_ok_def)
  show "session_conn sm addr = Some j \<longleftrightarrow> j < length (cns[i := cn]) \<and>
      listed (cns[i := cn] ! j) \<and> cn_addr (cns[i := cn] ! j) = addr" for addr j
    using assms(2-4) sessions_okD [OF assms(1), of addr j] by (cases "j = i") auto
qed

lemma sessions_ok_add:
  assumes "sessions_ok sm cns" and "conns_ok cns" and "i < length cns"
    and "cn_phase (cns ! i) = Handshaking" and "listed cn" and "cn_addr cn = cn_addr (cns ! i)"
  shows "sessions_ok (sm_add (cn_addr (cns ! i)) i sm) (cns[i := cn])"
proof (rule sessions_okI)
  show "keys_distinct (sm_add (cn_addr (cns ! i)) i sm)"
    using assms(1) session_keys_distinct(1) by (simp add: sessions_ok_def)
  have other: "j = i" if "j < length cns" "listed (cns ! j)" "cn_addr (cns ! j) = cn_addr (cns ! i)" for j
    using conns_okD(2) [OF assms(2) that(1) assms(3)] that assms(4) by (simp add: listed_def)
  show "session_conn (sm_add (cn_addr (cns ! i)) i sm) addr = Some j \<longleftrightarrow>
      j < length (cns[i := cn]) \<and> listed (cns[i := cn] ! j) \<and> cn_addr (cns[i := cn] ! j) = addr"
    for addr j
    using assms(3,5,6) other [of j] sessions_okD [OF assms(1), of addr j]
    by (cases "j = i") (auto simp: session_conn_simps)
qed

lemma sessions_ok_remove:
  assumes "sessions_ok sm cns" and "conns_ok cns" and "i < length cns"
    and "listed (cns ! i)" and "\<not> listed cn"
  shows "sessions_ok (sm_remove (cn_addr (cns ! i)) sm) (cns[i := cn])"
proof (rule sessions_okI)
  show "keys_distinct (sm_remove (cn_addr (cns ! i)) sm)"
    using assms(1) session_keys_distinct(2) by (simp add: sessions_ok_def)
  have other: "j = i" if "j < length cns" "listed (cns ! j)" "cn_addr (cns ! j) = cn_addr (cns ! i)" for j
    using conns_okD(2) [OF assms(2) that(1) assms(3)] that assms(4) by (simp add: listed_def)
  show "session_conn (sm_remove (cn_addr (cns ! i)) sm) addr = Some j \<longleftrightarrow>
      j < length (cns[i := cn]) \<and> listed (cns[i := cn] ! j) \<and> cn_addr (cns[i := cn] ! j) = addr"
    for addr j
    using assms(3,5) other [of j] sessions_okD [OF assms(1), of addr j]
    by (cases "j = i") (auto simp: session_conn_simps)
qed

lemma sessions_ok_append:
  assumes "sessions_ok sm cns" and "\<not> listed cn"
  shows "sessions_ok sm (cns @ [cn])"
proof (rule sessions_okI)
  show "keys_distinct sm" using assms(1) by (simp add: sessions_ok_def)
  show "session_conn sm addr = Some j \<longleftrightarrow> j < length (cns @ [cn]) \<and>
      listed ((cns @ [cn]) ! j) \<and> cn_addr ((cns @ [cn]) ! j) = addr" for addr j
    using assms sessions_okD [OF assms(1), of addr j] by (auto simp: nth_append less_Suc_eq)
qed

lemma sessions_ok_channel:
  "sessions_ok sm cns \<Longrightarrow> sessions_ok (sm_set_channel addr ch sm) cns"
  by (simp add: sessions_ok_def session_conn_simps session_keys_distinct)

text \<open>Marking connections as closed changes nothing the invariant looks at.\<close>

definition mark :: "nat set \<Rightarrow> conn list \<Rightarrow> conn list" where
  "mark I cns = map (\<lambda>(i, cn). if i \<in> I then cn\<lparr>cn_closed := True\<rparr> else cn) (enumerate 0 cns)"

lemma length_mark [simp]: "length (mark I cns) = length cns"
  by (simp add: mark_def)

lemma nth_mark:
  "i < length cns \<Longrightarrow> mark I cns ! i = (if i \<in> I then (cns ! i)\<lparr>cn_closed := True\<rparr> else cns ! i)"
  by (simp add: mark_def nth_enumerate_eq)

lemma mark_sel:
  "i < length cns \<Longrightarrow> cn_phase (mark I cns ! i) = cn_phase (cns ! i)"
  "i < length cns \<Longrightarrow> cn_addr (mark I cns ! i) = cn_addr (cns ! i)"
  "i < length cns \<Longrightarrow> cn_cleaned (mark I cns ! i) = cn_cleaned (cns ! i)"
  by (simp_all add: nth_mark)

lemma uncleaned_map: "uncleaned cns = length (filter (\<lambda>b. \<not> b) (map cn_cleaned cns))"
  by (simp add: uncleaned_def filter_map o_def)

lemma uncleaned_mark [simp]: "uncleaned (mark I cns) = uncleaned cns"
proof -
  have "map cn_cleaned (mark I cns) = map cn_cleaned cns"
    by (rule nth_equalityI) (simp_all add: mark_sel)
  then show ?thesis by (simp only: uncleaned_map)
qed

lemma conns_ok_mark:
  assumes "conns_ok cns" shows "conns_ok (mark I cns)"
proof (rule conns_okI)
  show "conn_ok (mark I cns ! i)" if "i < length (mark I cns)" for i
    using that conns_okD(1) [OF assms, of i] by (simp add: conn_ok_def mark_sel)
  show "i = j" if "i < length (mark I cns)" "j < length (mark I cns)"
      "cn_phase (mark I cns ! i) \<noteq> Ended" "cn_phase (mark I cns ! j) \<noteq> Ended"
      "cn_addr (mark I cns ! i) = cn_addr (mark I cns ! j)" for i j
    by (rule conns_okD(2) [OF assms]) (use that in \<open>simp_all add: mark_sel\<close>)
qed

lemma sessions_ok_mark: "sessions_ok sm cns \<Longrightarrow> sessions_ok sm (mark I cns)"
  unfolding sessions_ok_def by (auto simp: mark_sel)

section \<open>Preservation\<close>

lemma set_conn_sel [simp]:
  "cl_conns (set_conn i cn c) = (cl_conns c)[i := cn]" "cl_wg (set_conn i cn c) = cl_wg c"
  "cl_sessions (set_conn i cn c) = cl_sessions c" "cl_config (set_conn i cn c) = cl_config c"
  "cl_running (set_conn i cn c) = cl_running c" "cl_listener (set_conn i cn c) = cl_listener c"
  "cl_shutdown (set_conn i cn c) = cl_shutdown c" "cl_run (set_conn i cn c) = cl_run c"
  "cl_accepting (set_conn i cn c) = cl_accepting c" "cl_locked (set_conn i cn c) = cl_locked c"
  "cl_crashed (set_conn i cn c) = cl_crashed c"
  by (simp_all add: set_conn_def)

text \<open>What the handler's operations leave alone.\<close>

definition same_control :: "('key, 'signer) controller \<Rightarrow> ('key, 'signer) controller \<Rightarrow> bool" where
  "same_control c c' \<longleftrightarrow>
     cl_running c' = cl_running c \<and> cl_listener c' = cl_listener c \<and> cl_shutdown c' = cl_shutdown c \<and>
     cl_run c' = cl_run c \<and> cl_accepting c' = cl_accepting c \<and> cl_config c' = cl_config c"

lemma same_control_lifecycle:
  "lifecycle_ok c \<Longrightarrow> same_control c c' \<Longrightarrow> uncleaned (cl_conns c') \<le> uncleaned (cl_conns c) \<Longrightarrow>
     lifecycle_ok c'"
  by (auto simp: lifecycle_ok_def same_control_def)

lemma ssh_invD:
  "ssh_inv c \<Longrightarrow> cl_wg c = int (uncleaned (cl_conns c))" "ssh_inv c \<Longrightarrow> conns_ok (cl_conns c)"
  "ssh_inv c \<Longrightarrow> sessions_ok (cl_sessions c) (cl_conns c)" "ssh_inv c \<Longrightarrow> lifecycle_ok c"
  by (simp_all add: ssh_inv_def)

lemma handshake_inv:
  assumes inv: "ssh_inv c" and "alive c i Handshaking"
  shows "ssh_inv (handshake i r c)"
proof -
  let ?cn = "cl_conns c ! i"
  have i: "i < length (cl_conns c)" "cn_phase ?cn = Handshaking" "\<not> cn_cleaned ?cn" "\<not> listed ?cn"
    using assms(2) conns_okD(1) [OF ssh_invD(2) [OF inv], of i]
    by (simp_all add: alive_def conn_ok_def listed_def)
  consider (panic) m where "r = Panics m" | (fail) e where "r = Returns (Some e)" | (ok) "r = Returns None"
    by (metis not_None_eq outcome.exhaust)
  then show ?thesis
  proof cases
    case panic
    then show ?thesis using inv by (simp add: handshake_def ssh_inv_def lifecycle_ok_def)
  next
    case fail
    let ?d = "?cn\<lparr>cn_phase := Ended, cn_cleaned := True\<rparr>"
    have "uncleaned ((cl_conns c)[i := ?d]) + 1 = uncleaned (cl_conns c)"
      using uncleaned_update [OF i(1), of ?d] i(3) by simp
    moreover have "conns_ok ((cl_conns c)[i := ?d])"
      by (rule conns_ok_update [OF ssh_invD(2) [OF inv] i(1)]) (simp_all add: conn_ok_def i(2))
    moreover have "sessions_ok (cl_sessions c) ((cl_conns c)[i := ?d])"
      by (rule sessions_ok_same [OF ssh_invD(3) [OF inv] i(4) _ i(1)]) (simp add: listed_def)
    moreover have "lifecycle_ok (handshake i r c)"
      using calculation(1) fail
      by (intro same_control_lifecycle [OF ssh_invD(4) [OF inv]])
        (simp_all add: handshake_def same_control_def)
    ultimately show ?thesis
      using ssh_invD(1) [OF inv] fail by (simp add: ssh_inv_def handshake_def)
  next
    case ok
    let ?d = "?cn\<lparr>cn_phase := Established\<rparr>"
    have "uncleaned ((cl_conns c)[i := ?d]) = uncleaned (cl_conns c)"
      using uncleaned_update [OF i(1), of ?d] i(3) by simp
    moreover have "conns_ok ((cl_conns c)[i := ?d])"
      by (rule conns_ok_update [OF ssh_invD(2) [OF inv] i(1)]) (simp_all add: conn_ok_def i(2))
    moreover have "sessions_ok (sm_add (cn_addr ?cn) i (cl_sessions c)) ((cl_conns c)[i := ?d])"
      by (rule sessions_ok_add [OF ssh_invD(3,2) [OF inv] i(1,2)]) (simp_all add: listed_def i(3))
    moreover have "lifecycle_ok (handshake i r c)"
      using calculation(1) ok
      by (intro same_control_lifecycle [OF ssh_invD(4) [OF inv]])
        (simp_all add: handshake_def same_control_def)
    ultimately show ?thesis
      using ssh_invD(1) [OF inv] ok by (simp add: ssh_inv_def handshake_def)
  qed
qed

lemma conn_upd_same:
  "cn_cleaned cn \<Longrightarrow> cn\<lparr>cn_cleaned := True\<rparr> = cn" "cn_phase cn = ph \<Longrightarrow> cn\<lparr>cn_phase := ph\<rparr> = cn"
  for cn :: conn
  by (cases cn, simp)+

lemma set_conn_same: "set_conn i (cl_conns c ! i) c = c"
  by (simp add: set_conn_def)

text \<open>The cleanup, at the end of the connection's channels (\<open>ph\<close> is Ended) or before it.\<close>

lemma cleanup_inv:
  assumes inv: "ssh_inv c" and "alive c i Established" and "ph = Established \<or> ph = Ended"
  shows "ssh_inv (cleanup i (set_conn i ((cl_conns c ! i)\<lparr>cn_phase := ph\<rparr>) c))"
proof -
  let ?cn = "cl_conns c ! i"
  let ?c' = "cleanup i (set_conn i (?cn\<lparr>cn_phase := ph\<rparr>) c)"
  let ?d = "?cn\<lparr>cn_phase := ph, cn_cleaned := True\<rparr>"
  have i: "i < length (cl_conns c)" "cn_phase ?cn = Established" using assms(2) by (simp_all add: alive_def)
  have conns: "cl_conns ?c' = (cl_conns c)[i := ?d]"
  proof (cases "cn_cleaned ?cn")
    case True
    then have d: "?d = ?cn\<lparr>cn_phase := ph\<rparr>" by (cases ?cn) simp
    show ?thesis unfolding d using True i(1) by (simp add: cleanup_def)
  next
    case False
    with i(1) show ?thesis by (simp add: cleanup_def)
  qed
  have ok: "conns_ok (cl_conns ?c')"
    unfolding conns using assms(3)
    by (intro conns_ok_update [OF ssh_invD(2) [OF inv] i(1)]) (auto simp: conn_ok_def i(2))
  have same: "same_control c ?c'" by (simp add: same_control_def cleanup_def)
  have life: "lifecycle_ok ?c'" if "uncleaned (cl_conns ?c') \<le> uncleaned (cl_conns c)"
    using ssh_invD(4) [OF inv] same that by (rule same_control_lifecycle)
  show ?thesis
  proof (cases "cn_cleaned ?cn")
    case True
    have "uncleaned ((cl_conns c)[i := ?d]) = uncleaned (cl_conns c)"
      using uncleaned_update [OF i(1), of ?d] True by simp
    moreover have "sessions_ok (cl_sessions c) ((cl_conns c)[i := ?d])"
      by (rule sessions_ok_same [OF ssh_invD(3) [OF inv] _ _ i(1)]) (simp_all add: listed_def True)
    moreover have "cl_sessions ?c' = cl_sessions c" "cl_wg ?c' = cl_wg c"
      using True i(1) by (simp_all add: cleanup_def)
    ultimately show ?thesis using ok life ssh_invD(1) [OF inv] by (simp add: ssh_inv_def conns)
  next
    case False
    have "uncleaned ((cl_conns c)[i := ?d]) + 1 = uncleaned (cl_conns c)"
      using uncleaned_update [OF i(1), of ?d] False by simp
    moreover have "sessions_ok (sm_remove (cn_addr ?cn) (cl_sessions c)) ((cl_conns c)[i := ?d])"
      by (rule sessions_ok_remove [OF ssh_invD(3,2) [OF inv] i(1)]) (simp_all add: listed_def False i(2))
    moreover have "cl_sessions ?c' = sm_remove (cn_addr ?cn) (cl_sessions c)" "cl_wg ?c' = cl_wg c - 1"
      using False i(1) by (simp_all add: cleanup_def)
    ultimately show ?thesis using ok life ssh_invD(1) [OF inv] by (simp add: ssh_inv_def conns)
  qed
qed

lemma shell_exit_inv: "ssh_inv c \<Longrightarrow> alive c i Established \<Longrightarrow> ssh_inv (shell_exit i c)"
  using cleanup_inv [of c i Established]
  by (simp add: shell_exit_def alive_def conn_upd_same set_conn_same)

lemma channels_end_inv: "ssh_inv c \<Longrightarrow> alive c i Established \<Longrightarrow> ssh_inv (channels_end i c)"
  using cleanup_inv [of c i Ended] by (simp add: channels_end_def)

lemma accept_inv:
  assumes inv: "ssh_inv c" and "cl_accepting c"
    and "\<forall>cn \<in> set (cl_conns c). cn_addr cn = addr \<longrightarrow> cn_phase cn = Ended"
  shows "ssh_inv (accept_conn addr c)"
proof -
  let ?d = "\<lparr>cn_addr = addr, cn_phase = Handshaking, cn_cleaned = False, cn_closed = False\<rparr>"
  have "conns_ok (cl_conns c @ [?d])"
    by (rule conns_ok_append [OF ssh_invD(2) [OF inv]]) (use assms(3) in \<open>simp_all add: conn_ok_def\<close>)
  moreover have "sessions_ok (cl_sessions c) (cl_conns c @ [?d])"
    by (rule sessions_ok_append [OF ssh_invD(3) [OF inv]]) (simp add: listed_def)
  moreover have "lifecycle_ok (accept_conn addr c)"
    using ssh_invD(4) [OF inv] assms(2) by (auto simp: lifecycle_ok_def accept_conn_def)
  ultimately show ?thesis
    using ssh_invD(1) [OF inv] by (simp add: ssh_inv_def accept_conn_def)
qed

lemma configure_running: "configure L listen req True = Returns (Inl (Error ''SSH server is already running''))"
  by (simp add: configure_def)

lemma idle_ready:
  assumes "ssh_inv c" and "\<not> cl_running c"
  shows "cl_run c = NotRunning" and "uncleaned (cl_conns c) = 0" and "\<not> cl_accepting c"
  using assms by (auto simp: ssh_inv_def lifecycle_ok_def)

lemma listening_inv:
  assumes "ssh_inv c" and "\<not> cl_running c"
  shows "ssh_inv (c\<lparr>cl_config := cfg, cl_listener := Some True, cl_running := True, cl_shutdown := Some ch\<rparr>)"
  using assms idle_ready [OF assms] by (simp add: ssh_inv_def lifecycle_ok_def)

lemma locked_inv: "ssh_inv (c\<lparr>cl_locked := b\<rparr>) = ssh_inv c"
  by (simp add: ssh_inv_def lifecycle_ok_def)

lemma prepare_inv:
  assumes "ssh_inv c" shows "ssh_inv (snd (prepare_config_and_listener L listen req c))"
proof (cases "cl_running c")
  case True
  then show ?thesis using assms by (simp add: prepare_config_and_listener_def configure_running)
next
  case False
  show ?thesis
    using assms listening_inv [OF assms False]
    by (simp add: prepare_config_and_listener_def locked_inv split: outcome.split sum.split)
qed

lemma start_controller_inv:
  assumes "ssh_inv c" shows "ssh_inv (snd (start_controller L listen req c))"
proof (cases "cl_running c")
  case True
  then show ?thesis using assms by (simp add: start_controller_def configure_running)
next
  case False
  have "c\<lparr>cl_config := cl_config c\<rparr> = c" by simp
  then show ?thesis
    using assms listening_inv [OF assms False, of _ "cl_config c"]
    by (simp add: start_controller_def locked_inv split: outcome.split sum.split)
qed

lemma stop_controller_inv: "ssh_inv c \<Longrightarrow> ssh_inv (snd (stop_controller c))"
  by (auto simp: stop_controller_def ssh_inv_def lifecycle_ok_def split: option.split outcome.split)

lemma broadcast_conns: "cl_conns (broadcast_and_close c) = mark (set (closed_conns (cl_sessions c))) (cl_conns c)"
  by (simp add: broadcast_and_close_def mark_def)

lemma broadcast_inv:
  assumes "ssh_inv c" and "cl_run c = Draining" and "\<not> cl_accepting c"
  shows "ssh_inv (broadcast_and_close c)"
proof -
  have "lifecycle_ok (broadcast_and_close c)"
    using assms unfolding ssh_inv_def lifecycle_ok_def broadcast_conns uncleaned_mark
    by (simp add: broadcast_and_close_def)
  moreover have "cl_wg (broadcast_and_close c) = cl_wg c"
    and "cl_sessions (broadcast_and_close c) = cl_sessions c"
    by (simp_all add: broadcast_and_close_def)
  ultimately show ?thesis
    using assms(1) by (simp add: ssh_inv_def broadcast_conns conns_ok_mark sessions_ok_mark)
qed

lemma ssh_step_inv: "ssh_step L c ev c' \<Longrightarrow> ssh_inv c \<Longrightarrow> ssh_inv c'"
proof (induction rule: ssh_step.induct)
  case (run c)
  then show ?case by (auto simp: ssh_inv_def lifecycle_ok_def)
next
  case (run_nil c)
  then show ?case by (simp add: ssh_inv_def lifecycle_ok_def)
next
  case (accept_end c)
  then show ?case by (simp add: ssh_inv_def lifecycle_ok_def)
next
  case (channel c i ty accepted)
  then show ?case
    by (simp add: new_channel_def ssh_inv_def open_channel_def sessions_ok_channel lifecycle_ok_def
        split: sum.split)
next
  case (requests c i rs)
  then show ?case
    by (simp add: serve_channel_def ssh_inv_def lifecycle_ok_def split: outcome.split)
next
  case (shutdown c ch)
  then show ?case by (auto simp: ssh_inv_def close_listener_def lifecycle_ok_def)
next
  case (timer c)
  then show ?case by (auto simp: ssh_inv_def close_listener_def lifecycle_ok_def)
next
  case (finish c)
  then show ?case by (auto simp: ssh_inv_def finish_run_def wait_returns_def lifecycle_ok_def)
qed (blast intro: prepare_inv start_controller_inv stop_controller_inv accept_inv handshake_inv shell_exit_inv
    channels_end_inv broadcast_inv)+

lemma new_controller_inv: "ssh_inv new_ssh_server_controller"
  by (simp add: ssh_inv_def new_ssh_server_controller_def new_session_manager_def conns_ok_def sessions_ok_def
      session_conn_def lifecycle_ok_def)

lemma ssh_reach_inv: "ssh_reach L c \<Longrightarrow> ssh_inv c"
  by (induction rule: ssh_reach.induct) (auto intro: new_controller_inv ssh_step_inv)

section \<open>Properties\<close>

text \<open>
  A host key can be given as PEM text or as the base64 encoding of that text, with line
  breaks anywhere: both forms hand the same bytes to the key parser.
\<close>

theorem host_key_forms_agree:
  assumes "take 10 pem = ''-----BEGIN''" and "filter (\<lambda>c. \<not> newline_char c) enc = b64_encode pem"
  shows "parse_private_key parse pem = Returns (parse pem) \<and>
    parse_private_key parse enc = Returns (parse pem)"
proof -
  have len: "10 \<le> length pem" using arg_cong [OF assms(1), of length] by simp
  also have "length pem \<le> length (b64_encode pem)" by (rule length_b64_encode)
  also have "\<dots> \<le> length enc" unfolding assms(2) [symmetric] by simp
  finally have enc: "\<not> length enc < 10" by simp
  have "hd enc \<noteq> CHR ''-''"
  proof (cases enc)
    case (Cons c cs)
    have "c \<noteq> CHR ''-''" if "\<not> newline_char c"
      using that assms(2) b64_encode_chars [of c pem] Cons
      by (metis filter.simps(2) list.set_intros(1))
    then show ?thesis using Cons by (cases "newline_char c") (auto simp: newline_char_def)
  qed (use enc in simp)
  then have "take 10 enc \<noteq> ''-----BEGIN''" by (cases enc) auto
  with enc len assms(1) b64_decode_encode [OF assms(2)] show ?thesis
    by (simp add: parse_private_key_def)
qed

theorem host_key_forms_agree_witness:
  "parse_private_key (\<lambda>k. Inr k) ''-----BEGIN'' = Returns (Inr ''-----BEGIN'') \<and>
   parse_private_key (\<lambda>k. Inr k) (''LS0tLS1C'' @ [CHR 0x0A] @ ''RUdJTg=='') = Returns (Inr ''-----BEGIN'')"
proof -
  have "b64_encode ''-----BEGIN'' = ''LS0tLS1CRUdJTg==''" by (simp add: b64_char_def char_of_def bit_0)
  then have "filter (\<lambda>c. \<not> newline_char c) (''LS0tLS1C'' @ [CHR 0x0A] @ ''RUdJTg=='') =
      b64_encode ''-----BEGIN''" by (simp add: newline_char_def)
  from host_key_forms_agree [OF _ this, of Inr] show ?thesis by simp
qed

text \<open>A key of fewer than ten bytes panics with the controller's mutex held.\<close>

lemma short_key_locks:
  assumes "\<not> cl_running c" and "sl_parse_authorized L (sr_ca_public_key req) = Inr ca"
    and "length (sr_host_private_key req) < 10"
  shows "start_controller L listen req c = (Panics ''slice bounds out of range'', c\<lparr>cl_locked := True\<rparr>)"
  using assms by (simp add: start_controller_def configure_def parse_private_key_def)

text \<open>
  A sample run: the server is prepared and run, one client logs in, opens a shell and leaves it
  without disconnecting; then the server is stopped.
\<close>

definition demo_request_ssh :: start_request where
  "demo_request_ssh = \<lparr>sr_ca_public_key = ''ca'', sr_host_private_key = ''-----BEGIN KEY''\<rparr>"

definition demo_ssh_state ::
  "unit chan \<Rightarrow> bool \<Rightarrow> session_manager \<Rightarrow> int \<Rightarrow> conn list \<Rightarrow> run_pc \<Rightarrow> bool \<Rightarrow>
   (string, string \<times> string) controller" where
  "demo_ssh_state ch l sm wg cns pc acc =
     \<lparr>cl_config = Some \<lparr>sv_ca = ''ca'', sv_host_key = (''ecdsa'', ''-----BEGIN KEY'')\<rparr>,
      cl_running = True, cl_listener = Some l, cl_shutdown = Some ch, cl_sessions = sm, cl_wg = wg,
      cl_conns = cns, cl_run = pc, cl_accepting = acc, cl_locked = False, cl_crashed = False\<rparr>"

abbreviation demo_conn :: "conn_phase \<Rightarrow> bool \<Rightarrow> conn" where
  "demo_conn ph cleaned \<equiv> \<lparr>cn_addr = ''a:1'', cn_phase = ph, cn_cleaned = cleaned, cn_closed = False\<rparr>"

lemma demo_prepared: "ssh_reach demo_lib (demo_ssh_state (make_chan 0) True [] 0 [] NotRunning False)"
proof -
  have "snd (prepare_config_and_listener demo_lib None demo_request_ssh new_ssh_server_controller) =
      demo_ssh_state (make_chan 0) True [] 0 [] NotRunning False"
    by (simp add: prepare_config_and_listener_def configure_def parse_private_key_def demo_lib_def
        demo_request_ssh_def new_ssh_server_controller_def new_session_manager_def demo_ssh_state_def)
  with ssh_reach.step [OF ssh_reach.init ssh_step.prepare [of _ demo_lib demo_request_ssh None]]
  show ?thesis by (simp add: new_ssh_server_controller_def new_session_manager_def)
qed

lemma demo_accepted: "ssh_reach demo_lib (demo_ssh_state (make_chan 0) True [] 1 [demo_conn Handshaking False] Selecting True)"
proof -
  have "ssh_step demo_lib (demo_ssh_state (make_chan 0) True [] 0 [] NotRunning False) EvRun
      (demo_ssh_state (make_chan 0) True [] 0 [] Selecting True)"
    using ssh_step.run [of "demo_ssh_state (make_chan 0) True [] 0 [] NotRunning False" demo_lib]
    by (simp add: demo_ssh_state_def)
  note r = ssh_reach.step [OF demo_prepared this]
  have "ssh_step demo_lib (demo_ssh_state (make_chan 0) True [] 0 [] Selecting True) (EvAccept ''a:1'')
      (demo_ssh_state (make_chan 0) True [] 1 [demo_conn Handshaking False] Selecting True)"
    using ssh_step.accept [of "demo_ssh_state (make_chan 0) True [] 0 [] Selecting True" "''a:1''" demo_lib]
    by (simp add: demo_ssh_state_def accept_conn_def)
  from ssh_reach.step [OF r this] show ?thesis .
qed

lemma demo_shell_left:
  "ssh_reach demo_lib (demo_ssh_state (make_chan 0) True [] 0 [demo_conn Established True] Selecting True)"
proof -
  let ?c = "demo_ssh_state (make_chan 0) True [] 1 [demo_conn Handshaking False] Selecting True"
  let ?sm = "[(''a:1'', \<lparr>se_conn = 0, se_channel = None\<rparr>)]"
  let ?d = "demo_ssh_state (make_chan 0) True ?sm 1 [demo_conn Established False] Selecting True"
  have "ssh_step demo_lib ?c (EvHandshake 0 (Returns None)) ?d"
    using ssh_step.handshake [of ?c 0 "Returns None" demo_lib]
    by (simp add: demo_ssh_state_def handshake_def set_conn_def alive_def sm_add_def)
  note r = ssh_reach.step [OF demo_accepted this]
  have "ssh_step demo_lib ?d (EvShellExit 0)
      (demo_ssh_state (make_chan 0) True [] 0 [demo_conn Established True] Selecting True)"
    using ssh_step.shell_exit [of ?d 0 demo_lib]
    by (simp add: demo_ssh_state_def shell_exit_def cleanup_def set_conn_def alive_def sm_remove_def)
  from ssh_reach.step [OF r this] show ?thesis .
qed

definition demo_draining :: "(string, string \<times> string) controller" where
  "demo_draining = demo_ssh_state ((make_chan 0)\<lparr>ch_closed := True\<rparr>) False [] 0
     [demo_conn Established True] Draining False"

lemma demo_draining_reach: "ssh_reach demo_lib demo_draining"
proof -
  let ?ch = "(make_chan 0)\<lparr>ch_closed := True\<rparr>" and ?cns = "[demo_conn Established True]"
  have "ssh_step demo_lib (demo_ssh_state (make_chan 0) True [] 0 ?cns Selecting True) EvStop
      (demo_ssh_state ?ch True [] 0 ?cns Selecting True)"
    using ssh_step.stop [of "demo_ssh_state (make_chan 0) True [] 0 ?cns Selecting True" demo_lib]
    by (simp add: demo_ssh_state_def stop_controller_def close_chan_def make_chan_def)
  note r = ssh_reach.step [OF demo_shell_left this]
  have "ssh_step demo_lib (demo_ssh_state ?ch True [] 0 ?cns Selecting True) EvShutdown
      (demo_ssh_state ?ch False [] 0 ?cns Draining True)"
    using ssh_step.shutdown [of "demo_ssh_state ?ch True [] 0 ?cns Selecting True" ?ch demo_lib]
    by (simp add: demo_ssh_state_def close_listener_def)
  note r = ssh_reach.step [OF r this]
  have "ssh_step demo_lib (demo_ssh_state ?ch False [] 0 ?cns Draining True) EvAcceptEnd demo_draining"
    using ssh_step.accept_end [of "demo_ssh_state ?ch False [] 0 ?cns Draining True" demo_lib]
    by (simp add: demo_ssh_state_def demo_draining_def)
  from ssh_reach.step [OF r this] show ?thesis .
qed

text \<open>
  C8.  In every reachable state the wait group's counter is the number of accepted connections
  that were not cleaned up, so it is never negative; the session manager holds exactly the
  established ones among them, each under its own address; and the server counts as running
  exactly while it has a listener and a shutdown channel, so \<open>Stop\<close> never closes a nil channel.
\<close>

theorem connections_are_accounted_for:
  assumes "ssh_reach L c"
  shows "cl_wg c = int (length (filter (\<lambda>cn. \<not> cn_cleaned cn) (cl_conns c))) \<and>
    (\<forall>addr i. map_option se_conn (map_of (cl_sessions c) addr) = Some i \<longleftrightarrow>
       i < length (cl_conns c) \<and> cn_phase (cl_conns c ! i) = Established \<and>
       \<not> cn_cleaned (cl_conns c ! i) \<and> cn_addr (cl_conns c ! i) = addr) \<and>
    (is_running c \<longleftrightarrow> cl_listener c \<noteq> None) \<and> (is_running c \<longleftrightarrow> cl_shutdown c \<noteq> None) \<and>
    fst (stop_controller c) \<noteq> Panics ''close of nil channel''"
proof -
  note inv = ssh_reach_inv [OF assms]
  have "fst (stop_controller c) \<noteq> Panics ''close of nil channel''"
    using ssh_invD(4) [OF inv]
    by (auto simp: stop_controller_def lifecycle_ok_def close_chan_def split: option.split)
  moreover have "cl_listener c = None \<longleftrightarrow> \<not> cl_running c" "cl_shutdown c = None \<longleftrightarrow> \<not> cl_running c"
    using ssh_invD(4) [OF inv] by (simp_all add: lifecycle_ok_def)
  moreover note ssh_invD(1) [OF inv, unfolded uncleaned_def]
  moreover note conjunct2 [OF ssh_invD(3) [OF inv, unfolded sessions_ok_def session_conn_def]]
  ultimately show ?thesis by (simp only: is_running_def not_not) simp
qed

theorem connections_are_accounted_for_witness:
  "cl_wg demo_draining = 0 \<and> is_running demo_draining"
  using connections_are_accounted_for [OF demo_draining_reach]
  by (simp add: demo_draining_def demo_ssh_state_def)

text \<open>
  C37.  What the shutdown reaches.  \<open>BroadcastAndClose\<close> closes exactly the connections the session
  manager lists.  A connection still in its handshake is not closed, and \<open>Run\<close> cannot return
  before that client is done; an established connection whose first shell has exited was
  taken off the list then: it is not closed although its client may still use it.
\<close>

theorem shutdown_closes_listed_connections:
  assumes "ssh_reach L c" and "ssh_step L c EvBroadcast c'" and "i < length (cl_conns c)"
    and "\<not> cn_closed (cl_conns c ! i)"
  shows "(cn_closed (cl_conns c' ! i) \<longleftrightarrow>
      cn_phase (cl_conns c ! i) = Established \<and> \<not> cn_cleaned (cl_conns c ! i)) \<and>
    cn_phase (cl_conns c' ! i) = cn_phase (cl_conns c ! i) \<and>
    (cn_phase (cl_conns c ! i) = Handshaking \<longrightarrow> (\<nexists>c''. ssh_step L c' EvFinish c''))"
proof -
  have c': "c' = broadcast_and_close c" and "cl_run c = Draining" "\<not> cl_accepting c"
    using assms(2) by (auto elim: ssh_stepE)
  note inv = ssh_reach_inv [OF assms(1)]
  note inv' = broadcast_inv [OF inv \<open>cl_run c = Draining\<close> \<open>\<not> cl_accepting c\<close>, folded c']
  have keys: "keys_distinct (cl_sessions c)" using ssh_invD(3) [OF inv] by (simp add: sessions_ok_def)
  have conns: "cl_conns c' = mark (set (closed_conns (cl_sessions c))) (cl_conns c)"
    by (simp add: c' broadcast_conns)
  have "i \<in> set (closed_conns (cl_sessions c)) \<longleftrightarrow> (\<exists>addr. session_conn (cl_sessions c) addr = Some i)"
    by (force simp: closed_conns_def session_conn_def set_alist_iff [OF keys, symmetric])
  also have "\<dots> \<longleftrightarrow> listed (cl_conns c ! i)"
    using sessions_okD [OF ssh_invD(3) [OF inv]] assms(3) by blast
  finally have closed: "cn_closed (cl_conns c' ! i) \<longleftrightarrow> listed (cl_conns c ! i)"
    and phase: "cn_phase (cl_conns c' ! i) = cn_phase (cl_conns c ! i)"
    using assms(3,4) by (simp_all add: conns nth_mark)
  have "\<nexists>c''. ssh_step L c' EvFinish c''" if "cn_phase (cl_conns c ! i) = Handshaking"
  proof -
    have i: "i < length (cl_conns c')" using assms(3) by (simp add: conns)
    have "\<not> cn_cleaned (cl_conns c' ! i)"
      using conns_okD(1) [OF ssh_invD(2) [OF inv'] i] that phase by (simp add: conn_ok_def)
    then have "cl_conns c' ! i \<in> set (filter (\<lambda>cn. \<not> cn_cleaned cn) (cl_conns c'))"
      using i by simp
    then have "uncleaned (cl_conns c') \<noteq> 0" unfolding uncleaned_def by force
    then have "cl_wg c' \<noteq> 0" using ssh_invD(1) [OF inv'] by simp
    then show ?thesis by (auto simp: wait_returns_def elim: ssh_stepE)
  qed
  with closed phase show ?thesis by (simp add: listed_def)
qed

theorem shutdown_closes_listed_connections_witness:
  "\<not> cn_closed (cl_conns (broadcast_and_close demo_draining) ! 0) \<and>
   cn_phase (cl_conns (broadcast_and_close demo_draining) ! 0) = Established"
proof -
  have "ssh_step demo_lib demo_draining EvBroadcast (broadcast_and_close demo_draining)"
    by (rule ssh_step.broadcast) (simp_all add: demo_draining_def demo_ssh_state_def)
  from shutdown_closes_listed_connections [OF demo_draining_reach this, of 0]
  show ?thesis by (simp add: demo_draining_def demo_ssh_state_def)
qed

text \<open>
  C38.  \<open>Start\<close> leaves a server that neither \<open>Start\<close>, \<open>PrepareConfigAndListener\<close> nor \<open>Stop\<close> gets
  out of: it reports a running server, but stores no configuration and starts no \<open>Run\<close>.  Both
  ways to start are refused from then on, \<open>Stop\<close> succeeds once without the server ceasing to
  run, and a second \<open>Stop\<close> panics on the closed channel.
\<close>

theorem start_leaves_dead_server:
  assumes "ssh_reach L c" and "start_controller L listen req c = (Returns None, c')"
  shows "is_running c' \<and> cl_config c' = None \<and> cl_run c' = NotRunning \<and>
    (\<forall>req' l. fst (prepare_config_and_listener L l req' c') =
        Returns (Some (Error ''SSH server is already running'')) \<and>
      fst (start_controller L l req' c') = Returns (Some (Error ''SSH server is already running''))) \<and>
    fst (stop_controller c') = Returns () \<and> is_running (snd (stop_controller c')) \<and>
    panics (fst (stop_controller (snd (stop_controller c'))))"
proof -
  have nr: "\<not> cl_running c" using assms(2) by (auto simp: start_controller_def configure_running)
  note idle = idle_ready [OF ssh_reach_inv [OF assms(1)] nr]
  have "cl_config c = None" using ssh_invD(4) [OF ssh_reach_inv [OF assms(1)]] nr by (simp add: lifecycle_ok_def)
  moreover have c': "c' = c\<lparr>cl_listener := Some True, cl_running := True, cl_shutdown := Some (make_chan 0)\<rparr>"
    using assms(2) by (auto simp: start_controller_def split: outcome.splits sum.splits)
  ultimately show ?thesis
    using idle(1) by (simp add: is_running_def prepare_config_and_listener_def start_controller_def
        configure_running stop_controller_def close_chan_def make_chan_def)
qed

theorem start_leaves_dead_server_witness:
  "panics (fst (stop_controller (snd (stop_controller
     (snd (start_controller demo_lib None demo_request_ssh new_ssh_server_controller))))))"
proof -
  have "start_controller demo_lib None demo_request_ssh new_ssh_server_controller =
      (Returns None, snd (start_controller demo_lib None demo_request_ssh new_ssh_server_controller))"
    by (simp add: start_controller_def configure_def parse_private_key_def demo_lib_def
        demo_request_ssh_def new_ssh_server_controller_def new_session_manager_def)
  from start_leaves_dead_server [OF ssh_reach.init this] show ?thesis by blast
qed

end
