(* ===== verification/SSH_Shutdown.thy ===== *)
theory SSH_Shutdown
  imports SSH_Controller
begin

text \<open>
  The shutdown of the standalone SSH server (\<open>internal/ssh/controller.go\<close>, \<open>Run\<close> from its
  select on, with \<open>session.go\<close> and \<open>conn.go\<close>) gets to its end.

  Connections only move forward: \<open>conn_phase\<close> is a linear order and every step leads each
  connection to the same or a later phase.  \<open>shutdown_left\<close> bounds the steps that a shutdown
  still needs; once the listener is closed no step increases it, each step of the shutdown
  itself and each end of a handshake or connection decreases it, and one of those is always
  possible.
\<close>

section \<open>Connections only move forward\<close>

primrec phase_rank :: "conn_phase \<Rightarrow> nat" where
  "phase_rank Handshaking = 0"
| "phase_rank Established = 1"
| "phase_rank Ended = 2"

lemma phase_rank_inj: "phase_rank p = phase_rank q \<longleftrightarrow> p = q"
  by (cases p; cases q) simp_all

instantiation conn_phase :: linorder
begin

definition less_eq_conn_phase :: "conn_phase \<Rightarrow> conn_phase \<Rightarrow> bool" where
  "p \<le> q \<longleftrightarrow> phase_rank p \<le> phase_rank q"

definition less_conn_phase :: "conn_phase \<Rightarrow> conn_phase \<Rightarrow> bool" where
  "p < q \<longleftrightarrow> phase_rank p < phase_rank q"

instance
  by standard (auto simp: less_eq_conn_phase_def less_conn_phase_def phase_rank_inj)

end

lemma phase_le_simps [simp]:
  "Handshaking \<le> p" "p \<le> Ended" "Established \<le> p \<longleftrightarrow> p \<noteq> Handshaking"
  by (cases p; simp add: less_eq_conn_phase_def)+

definition conn_evolves :: "conn \<Rightarrow> conn \<Rightarrow> bool" where
  "conn_evolves cn cn' \<longleftrightarrow>
     cn_addr cn' = cn_addr cn \<and> cn_phase cn \<le> cn_phase cn' \<and>
     (cn_cleaned cn \<longrightarrow> cn_cleaned cn') \<and> (cn_closed cn \<longrightarrow> cn_closed cn')"

definition conns_evolve :: "conn list \<Rightarrow> conn list \<Rightarrow> bool" where
  "conns_evolve cns cns' \<longleftrightarrow>
     length cns \<le> length cns' \<and> (\<forall>i < length cns. conn_evolves (cns ! i) (cns' ! i))"

lemma conn_evolves_refl [simp]: "conn_evolves cn cn"
  by (simp add: conn_evolves_def)

lemma conn_evolves_trans: "conn_evolves a b \<Longrightarrow> conn_evolves b c \<Longrightarrow> conn_evolves a c"
  by (auto simp: conn_evolves_def)

lemma conns_evolve_refl [simp]: "conns_evolve cns cns"
  by (simp add: conns_evolve_def)

lemma conns_evolve_trans: "conns_evolve a b \<Longrightarrow> conns_evolve b c \<Longrightarrow> conns_evolve a c"
  unfolding conns_evolve_def by (meson conn_evolves_trans order_less_le_trans order_trans)

lemma conns_evolve_update: "conn_evolves (cns ! i) cn \<Longrightarrow> conns_evolve cns (cns[i := cn])"
  by (auto simp: conns_evolve_def nth_list_update_if)

lemma conns_evolve_append: "conns_evolve cns (cns @ ds)"
  by (simp add: conns_evolve_def nth_append)

lemma conns_evolve_mark: "conns_evolve cns (mark I cns)"
  by (simp add: conns_evolve_def conn_evolves_def nth_mark)

text \<open>The operations that touch no connection.\<close>

lemma keeps_conns:
  "cl_conns (snd (prepare_config_and_listener L listen req c)) = cl_conns c"
  "cl_conns (snd (start_controller L listen req c)) = cl_conns c"
  "cl_conns (snd (stop_controller c)) = cl_conns c"
  "cl_conns (snd (new_channel i ty accepted c)) = cl_conns c" "cl_conns (serve_channel rs c) = cl_conns c"
  "cl_conns (close_listener c) = cl_conns c" "cl_conns (finish_run c) = cl_conns c"
  by (simp_all add: prepare_config_and_listener_def start_controller_def stop_controller_def
      new_channel_def open_channel_def serve_channel_def close_listener_def finish_run_def
      split: outcome.split sum.split option.split)

lemma cleanup_evolves: "conns_evolve (cl_conns c) (cl_conns (cleanup i c))"
  by (simp add: cleanup_def conns_evolve_update conn_evolves_def)

lemma channels_end_evolves:
  "cn_phase (cl_conns c ! i) = Established \<Longrightarrow> conns_evolve (cl_conns c) (cl_conns (channels_end i c))"
  unfolding channels_end_def
  by (rule conns_evolve_trans [OF _ cleanup_evolves]) (simp add: conns_evolve_update conn_evolves_def)

lemma handshake_evolves:
  "cn_phase (cl_conns c ! i) = Handshaking \<Longrightarrow> conns_evolve (cl_conns c) (cl_conns (handshake i r c))"
  by (auto simp: handshake_def conns_evolve_update conn_evolves_def split: outcome.split option.split)

lemma ssh_step_evolves: "ssh_step L c ev c' \<Longrightarrow> conns_evolve (cl_conns c) (cl_conns c')"
  by (induction rule: ssh_step.induct)
    (simp_all add: keeps_conns accept_conn_def conns_evolve_append shell_exit_def cleanup_evolves
      alive_def channels_end_evolves handshake_evolves broadcast_conns conns_evolve_mark)

section \<open>What is left of a shutdown\<close>

definition conn_left :: "conn \<Rightarrow> nat" where
  "conn_left cn =
     (case cn_phase cn of
        Handshaking \<Rightarrow> 3
      | Established \<Rightarrow> if cn_cleaned cn then 1 else 2
      | Ended \<Rightarrow> 0)"

definition run_left :: "('key, 'signer) controller \<Rightarrow> nat" where
  "run_left c =
     (case cl_run c of
        Draining \<Rightarrow> if cl_accepting c then 3 else 2
      | AwaitingCleanup \<Rightarrow> 1
      | _ \<Rightarrow> 0)"

definition shutdown_left :: "('key, 'signer) controller \<Rightarrow> nat" where
  "shutdown_left c = run_left c + sum_list (map conn_left (cl_conns c))"

definition shutting_down :: "('key, 'signer) controller \<Rightarrow> bool" where
  "shutting_down c \<longleftrightarrow> cl_run c = Draining \<or> cl_run c = AwaitingCleanup"

text \<open>The events a shutdown waits for.\<close>

fun progress :: "ssh_event \<Rightarrow> bool" where
  "progress EvAcceptEnd = True"
| "progress EvBroadcast = True"
| "progress EvFinish = True"
| "progress (EvHandshake _ _) = True"
| "progress (EvConnEnd _) = True"
| "progress _ = False"

lemma conn_left_le: "conn_evolves cn cn' \<Longrightarrow> conn_left cn' \<le> conn_left cn"
  by (cases "cn_phase cn"; cases "cn_phase cn'")
    (auto simp: conn_evolves_def conn_left_def less_eq_conn_phase_def)

lemma conns_left_le:
  assumes "conns_evolve cns cns'" and "length cns' = length cns"
  shows "sum_list (map conn_left cns') \<le> sum_list (map conn_left cns)"
  unfolding sum_list_sum_nth
  using assms by (auto simp: conns_evolve_def intro!: sum_mono conn_left_le)

lemma conns_left_less:
  assumes "conns_evolve cns cns'" and "length cns' = length cns"
    and "i < length cns" and "conn_left (cns' ! i) < conn_left (cns ! i)"
  shows "sum_list (map conn_left cns') < sum_list (map conn_left cns)"
  unfolding sum_list_sum_nth
  using assms by (auto simp: conns_evolve_def intro!: sum_strict_mono_ex1 conn_left_le)

lemma locked_idle: "ssh_reach L c \<Longrightarrow> cl_locked c \<longrightarrow> \<not> cl_running c"
proof (induction rule: ssh_reach.induct)
  case (step c ev c')
  from step(2,1,3) show ?case
    by (induction rule: ssh_step.induct)
      (auto simp: prepare_config_and_listener_def start_controller_def stop_controller_def
        configure_def accept_conn_def handshake_def new_channel_def open_channel_def serve_channel_def shell_exit_def
        channels_end_def cleanup_def close_listener_def broadcast_and_close_def finish_run_def
        split: outcome.splits sum.splits option.splits if_splits)
qed (simp add: new_ssh_server_controller_def new_session_manager_def)

lemma shutting_down_closed:
  "ssh_inv c \<Longrightarrow> shutting_down c \<Longrightarrow> cl_listener c = Some False \<and> cl_running c"
  by (auto simp: shutting_down_def ssh_inv_def lifecycle_ok_def)

lemma keeps_run:
  "cl_run (snd (prepare_config_and_listener L listen req c)) = cl_run c"
  "cl_run (snd (start_controller L listen req c)) = cl_run c"
  "cl_run (snd (stop_controller c)) = cl_run c"
  "cl_run (snd (new_channel i ty accepted c)) = cl_run c" "cl_run (serve_channel rs c) = cl_run c"
  "cl_run (handshake i r c) = cl_run c" "cl_run (cleanup i c) = cl_run c"
  "cl_run (channels_end i c) = cl_run c"
  "cl_accepting (snd (prepare_config_and_listener L listen req c)) = cl_accepting c"
  "cl_accepting (snd (start_controller L listen req c)) = cl_accepting c"
  "cl_accepting (snd (stop_controller c)) = cl_accepting c"
  "cl_accepting (snd (new_channel i ty accepted c)) = cl_accepting c" "cl_accepting (serve_channel rs c) = cl_accepting c"
  "cl_accepting (handshake i r c) = cl_accepting c" "cl_accepting (cleanup i c) = cl_accepting c"
  "cl_accepting (channels_end i c) = cl_accepting c"
  "cl_crashed (channels_end i c) = cl_crashed c"
  by (simp_all add: prepare_config_and_listener_def start_controller_def stop_controller_def
      new_channel_def open_channel_def serve_channel_def handshake_def cleanup_def channels_end_def
      split: outcome.split sum.split option.split)

lemma run_left_cong: "cl_run c' = cl_run c \<Longrightarrow> cl_accepting c' = cl_accepting c \<Longrightarrow> run_left c' = run_left c"
  by (simp add: run_left_def)

text \<open>During a shutdown no connection is added.\<close>

lemma shutdown_length:
  assumes "ssh_step L c ev c'" and "ssh_inv c" and "shutting_down c"
  shows "length (cl_conns c') = length (cl_conns c)"
  using assms shutting_down_closed [OF assms(2,3)]
  by (cases rule: ssh_step.cases)
    (simp_all add: keeps_conns shell_exit_def channels_end_def cleanup_def handshake_def
      broadcast_conns split: outcome.split option.split)

lemma shutdown_run_left:
  assumes "ssh_step L c ev c'" and "ssh_inv c" and "shutting_down c"
  shows "run_left c' \<le> run_left c"
  using assms shutting_down_closed [OF assms(2,3)]
  by (cases rule: ssh_step.cases)
    (auto simp: shutting_down_def run_left_def keeps_run shell_exit_def broadcast_and_close_def
      finish_run_def)

lemma shutdown_left_le:
  assumes "ssh_step L c ev c'" and "ssh_inv c" and "shutting_down c"
  shows "shutdown_left c' \<le> shutdown_left c"
  using shutdown_run_left [OF assms] conns_left_le [OF ssh_step_evolves [OF assms(1)] shutdown_length [OF assms]]
  by (simp add: shutdown_left_def)

lemma handshake_left:
  assumes "alive c i Handshaking" and "\<not> panics r"
  shows "conn_left (cl_conns (handshake i r c) ! i) < conn_left (cl_conns c ! i)"
proof -
  from assms(2) obtain e where r: "r = Returns e" by (cases r) auto
  show ?thesis using assms(1) by (cases e) (simp_all add: r alive_def handshake_def conn_left_def)
qed

lemma channels_end_left:
  assumes "alive c i Established"
  shows "conn_left (cl_conns (channels_end i c) ! i) < conn_left (cl_conns c ! i)"
  using assms by (simp add: alive_def channels_end_def cleanup_def conn_left_def)

lemma progress_left_less:
  assumes step: "ssh_step L c ev c'" and inv: "ssh_inv c" and sh: "shutting_down c"
    and "progress ev" and "\<not> cl_crashed c'"
  shows "shutdown_left c' < shutdown_left c"
proof -
  note le = conns_left_le [OF ssh_step_evolves [OF step] shutdown_length [OF step inv sh]]
  note less = conns_left_less [OF ssh_step_evolves [OF step] shutdown_length [OF step inv sh]]
  note run = shutdown_run_left [OF step inv sh]
  from step show ?thesis
  proof cases
    case (handshake i r)
    then have "\<not> panics r" using assms(5) by (auto simp: handshake_def outcome_simps)
    with handshake have "conn_left (cl_conns c' ! i) < conn_left (cl_conns c ! i)"
      using handshake_left by blast
    with handshake less [of i] run show ?thesis by (simp add: shutdown_left_def alive_def)
  next
    case (conn_end i)
    then have "conn_left (cl_conns c' ! i) < conn_left (cl_conns c ! i)"
      using channels_end_left by blast
    with conn_end less [of i] run show ?thesis by (simp add: shutdown_left_def alive_def)
  qed (use assms(4) sh inv le in \<open>auto simp: shutdown_left_def run_left_def shutting_down_def
      broadcast_and_close_def finish_run_def ssh_inv_def lifecycle_ok_def\<close>)
qed

text \<open>One of those events is always possible.\<close>

lemma uncleaned_conn:
  assumes "conns_ok cns" and "uncleaned cns \<noteq> 0"
  obtains i where "i < length cns" "cn_phase (cns ! i) = Handshaking \<or> cn_phase (cns ! i) = Established"
proof -
  from assms(2) obtain i where i: "i < length cns" "\<not> cn_cleaned (cns ! i)"
    by (auto simp: uncleaned_def filter_empty_conv in_set_conv_nth)
  with conns_okD(1) [OF assms(1) i(1)] have "cn_phase (cns ! i) \<noteq> Ended" by (auto simp: conn_ok_def)
  with i that show thesis by (cases "cn_phase (cns ! i)") auto
qed

lemma drain_enabled:
  assumes "\<not> cl_crashed c" and "shutting_down c" and "cl_run c = Draining" and "cl_listener c = Some False"
  shows "\<exists>ev c'. progress ev \<and> ssh_step L c ev c' \<and> \<not> cl_crashed c' \<and> shutting_down c'"
proof (cases "cl_accepting c")
  case True
  from ssh_step.accept_end [OF assms(1) True assms(4), of L] assms show ?thesis
    by (intro exI [of _ EvAcceptEnd]) (auto simp: shutting_down_def)
next
  case False
  from ssh_step.broadcast [OF assms(1,3) False, of L] assms show ?thesis
    by (intro exI [of _ EvBroadcast]) (auto simp: shutting_down_def broadcast_and_close_def)
qed

lemma connection_end_enabled:
  assumes "\<not> cl_crashed c" and "shutting_down c" and "cl_run c = AwaitingCleanup"
    and "alive c i Handshaking \<or> alive c i Established"
  shows "\<exists>ev c'. progress ev \<and> ssh_step L c ev c' \<and> \<not> cl_crashed c' \<and> shutting_down c'"
  using assms(4)
proof
  assume "alive c i Handshaking"
  from ssh_step.handshake [OF assms(1) this, of "Returns (Some (Error []))" L] show ?thesis
    using assms(1,3) keeps_run(6) [of i _ c]
    by (intro exI [of _ "EvHandshake i (Returns (Some (Error [])))"])
      (auto simp: shutting_down_def handshake_def)
next
  assume "alive c i Established"
  from ssh_step.conn_end [OF assms(1) this, of L] show ?thesis
    using assms(1,3)
    by (intro exI [of _ "EvConnEnd i"] exI [of _ "channels_end i c"])
      (simp add: shutting_down_def keeps_run)
qed

lemma shutdown_enabled:
  assumes "ssh_reach L c" and "\<not> cl_crashed c" and sh: "shutting_down c"
  shows "\<exists>ev c'. progress ev \<and> ssh_step L c ev c' \<and> \<not> cl_crashed c' \<and>
    (shutting_down c' \<or> ev = EvFinish)"
proof -
  have inv: "ssh_inv c" using assms(1) by (rule ssh_reach_inv)
  have closed: "cl_listener c = Some False" "cl_running c" using shutting_down_closed [OF inv sh] by auto
  have unlocked: "\<not> cl_locked c" using locked_idle [OF assms(1)] closed(2) by blast
  consider (drain) "cl_run c = Draining" | (wait) "cl_run c = AwaitingCleanup"
    using sh by (auto simp: shutting_down_def)
  then show ?thesis
  proof cases
    case drain
    from drain_enabled [OF assms(2) sh drain closed(1)] show ?thesis by blast
  next
    case wait
    show ?thesis
    proof (cases "uncleaned (cl_conns c) = 0")
      case True
      then have "wait_returns c" using ssh_invD(1) [OF inv] by (simp add: wait_returns_def)
      then show ?thesis
        using ssh_step.finish [OF assms(2) unlocked wait, of L] assms(2)
        by (intro exI [of _ EvFinish]) (auto simp: finish_run_def)
    next
      case False
      then obtain i where "alive c i Handshaking \<or> alive c i Established"
        using uncleaned_conn [OF ssh_invD(2) [OF inv]] by (auto simp: alive_def)
      from connection_end_enabled [OF assms(2) sh wait this] show ?thesis by blast
    qed
  qed
qed

section \<open>Runs\<close>

inductive ssh_run ::
  "('key, 'signer) ssh_lib \<Rightarrow> ('key, 'signer) controller \<Rightarrow> ssh_event list \<Rightarrow>
   ('key, 'signer) controller \<Rightarrow> bool"
  for L :: "('key, 'signer) ssh_lib" where
  stay: "ssh_run L c [] c"
| more: "ssh_step L c ev c' \<Longrightarrow> ssh_run L c' evs c'' \<Longrightarrow> ssh_run L c (ev # evs) c''"

inductive_simps ssh_run_simps [simp]:
  "ssh_run L c [] c'" "ssh_run L c (ev # evs) c'"

lemma finish_result:
  assumes "ssh_step L c EvFinish c'"
  shows "\<not> cl_running c' \<and> cl_run c' = NotRunning \<and> cl_conns c' = cl_conns c \<and> cl_wg c = 0"
  using assms by cases (simp add: finish_run_def wait_returns_def)

lemma shutdown_run:
  assumes "ssh_reach L c" and "\<not> cl_crashed c" and "shutting_down c"
  shows "\<exists>evs c'. ssh_run L c evs c' \<and> length evs \<le> shutdown_left c \<and> list_all progress evs \<and>
    ssh_reach L c' \<and> \<not> cl_crashed c' \<and> \<not> cl_running c' \<and> cl_run c' = NotRunning"
  using assms
proof (induction "shutdown_left c" arbitrary: c rule: less_induct)
  case less
  have inv: "ssh_inv c" using less.prems(1) by (rule ssh_reach_inv)
  from shutdown_enabled [OF less.prems] obtain ev c' where
    c': "progress ev" "ssh_step L c ev c'" "\<not> cl_crashed c'" "shutting_down c' \<or> ev = EvFinish"
    by blast
  have lt: "shutdown_left c' < shutdown_left c"
    by (rule progress_left_less [OF c'(2) inv less.prems(3) c'(1,3)])
  have reach: "ssh_reach L c'" by (rule ssh_reach.step [OF less.prems(1) c'(2)])
  show ?case
  proof (cases "ev = EvFinish")
    case True
    with c' finish_result lt reach show ?thesis
      by (intro exI [of _ "[EvFinish]"] exI [of _ c']) auto
  next
    case False
    with c' have "shutting_down c'" by blast
    from less.hyps [OF lt reach c'(3) this] obtain evs c'' where
      "ssh_run L c' evs c''" "length evs \<le> shutdown_left c'" "list_all progress evs"
      "ssh_reach L c''" "\<not> cl_crashed c''" "\<not> cl_running c''" "cl_run c'' = NotRunning"
      by blast
    with c' lt show ?thesis by (intro exI [of _ "ev # evs"] exI [of _ c'']) auto
  qed
qed

lemma shutdown_left_bound:
  "shutting_down c \<Longrightarrow> shutdown_left c \<le> 3 + 3 * length (cl_conns c)"
proof -
  assume "shutting_down c"
  then have "run_left c \<le> 3" by (auto simp: shutting_down_def run_left_def)
  moreover have "conn_left cn \<le> 3" for cn by (simp add: conn_left_def split: conn_phase.split)
  then have "sum_list (map conn_left (cl_conns c)) \<le> sum_list (map (\<lambda>_. 3) (cl_conns c))"
    by (intro sum_list_mono)
  ultimately show ?thesis by (simp add: shutdown_left_def sum_list_triv mult.commute)
qed

section \<open>Properties\<close>

text \<open>
  C11.  A shutdown gets to its end.  Once \<open>Run\<close> has closed the listener of a reachable server, no
  step takes it further from the end; every end of a handshake or of a connection, and every
  step of \<open>Run\<close> itself, brings it nearer, unless the process dies; one of those is possible at
  any time, and a run of at most \<open>3 + 3 * n\<close> of them, for \<open>n\<close> connections, ends with the server
  stopped and every connection cleaned up.
\<close>

theorem shutdown_completes:
  assumes "ssh_reach L c" and "\<not> cl_crashed c" and "shutting_down c"
  shows "(\<forall>ev c'. ssh_step L c ev c' \<longrightarrow>
      shutdown_left c' \<le> shutdown_left c \<and>
      (progress ev \<longrightarrow> cl_crashed c' \<or> shutdown_left c' < shutdown_left c)) \<and>
    (\<exists>evs c'. ssh_run L c evs c' \<and> list_all progress evs \<and>
      length evs \<le> 3 + 3 * length (cl_conns c) \<and>
      \<not> cl_crashed c' \<and> \<not> cl_running c' \<and> cl_run c' = NotRunning \<and> wait_returns c' \<and>
      (\<forall>cn \<in> set (cl_conns c'). cn_cleaned cn))"
proof (intro conjI)
  have inv: "ssh_inv c" using assms(1) by (rule ssh_reach_inv)
  show "\<forall>ev c'. ssh_step L c ev c' \<longrightarrow> shutdown_left c' \<le> shutdown_left c \<and>
      (progress ev \<longrightarrow> cl_crashed c' \<or> shutdown_left c' < shutdown_left c)"
    using shutdown_left_le [OF _ inv assms(3)] progress_left_less [OF _ inv assms(3)] by blast
  from shutdown_run [OF assms] obtain evs c' where run: "ssh_run L c evs c'" "list_all progress evs"
      "length evs \<le> shutdown_left c" "ssh_reach L c'" "\<not> cl_crashed c'" "\<not> cl_running c'"
      "cl_run c' = NotRunning"
    by blast
  have "uncleaned (cl_conns c') = 0"
    using ssh_reach_inv [OF run(4)] run(7) by (simp add: ssh_inv_def lifecycle_ok_def)
  moreover from this have "\<forall>cn \<in> set (cl_conns c'). cn_cleaned cn"
    by (auto simp: uncleaned_def filter_empty_conv)
  ultimately show "\<exists>evs c'. ssh_run L c evs c' \<and> list_all progress evs \<and>
      length evs \<le> 3 + 3 * length (cl_conns c) \<and>
      \<not> cl_crashed c' \<and> \<not> cl_running c' \<and> cl_run c' = NotRunning \<and> wait_returns c' \<and>
      (\<forall>cn \<in> set (cl_conns c'). cn_cleaned cn)"
    using run ssh_invD(1) [OF ssh_reach_inv [OF run(4)]] shutdown_left_bound [OF assms(3)]
    by (intro exI [of _ evs] exI [of _ c']) (simp add: wait_returns_def)
qed

theorem shutdown_completes_witness:
  "\<exists>evs c'. ssh_run demo_lib demo_draining evs c' \<and> length evs \<le> 6 \<and> \<not> cl_running c'"
proof -
  have d: "\<not> cl_crashed demo_draining" "shutting_down demo_draining" "length (cl_conns demo_draining) = 1"
    by (simp_all add: demo_draining_def demo_ssh_state_def shutting_down_def)
  have "3 + 3 * length (cl_conns demo_draining) = 6" by (simp add: d(3))
  with shutdown_completes [OF demo_draining_reach d(1,2)] show ?thesis by metis
qed

end
