(* ===== verification/Device.thy ===== *)
theory Device
  imports Go_Os Go_Base64
begin

text \<open>
  \<open>internal/device\<close>: the first contact of a device with the control plane: its serial number
  (\<open>serial.go\<close>), the certificate request (\<open>sign_req.go\<close>) and the bootstrap (\<open>bootstrap.go\<close>).

  The functions of \<open>crypto/ecdsa\<close> and \<open>crypto/x509\<close> that the code calls are the record \<open>crypto\<close>
  over unknown keys, with the randomness they draw resolved; the network is the record \<open>net\<close>.
  The response type of the third-party API wraps pointers to certificates: a certificate that
  the response leaves out is \<open>None\<close>, and reading its bytes panics.
\<close>

section \<open>Serial number\<close>

definition device_serial :: "(string \<Rightarrow> string) \<Rightarrow> fs \<Rightarrow> string" where
  "device_serial env s =
     (if env ''DEVICE_NAME'' \<noteq> [] then env ''DEVICE_NAME''
      else
        (case read_file s ''/sys/firmware/devicetree/base/serial-number'' of
           Inr bytes \<Rightarrow> bytes
         | Inl _ \<Rightarrow> ''unknow''))"

section \<open>PEM\<close>

text \<open>\<open>pem.Encode\<close> of a block without headers: base64 in lines of 64 characters.\<close>

definition newline :: string where
  "newline = [CHR 0x0A]"

function break_lines :: "string \<Rightarrow> string" where
  "break_lines s = (if s = [] then [] else take 64 s @ newline @ break_lines (drop 64 s))"
  by auto
termination by (relation "measure length") auto

declare break_lines.simps [simp del]

definition pem_encode :: "string \<Rightarrow> string \<Rightarrow> string" where
  "pem_encode ty bytes =
     ''-----BEGIN '' @ ty @ ''-----'' @ newline @ break_lines (b64_encode bytes) @
     ''-----END '' @ ty @ ''-----'' @ newline"

section \<open>Certificate request\<close>

record 'key crypto =
  cr_generate :: "'key result"
  cr_create_request :: "string \<Rightarrow> 'key \<Rightarrow> string result"
  cr_parse_request :: "string \<Rightarrow> string result"
  cr_check_signature :: "string \<Rightarrow> error option"
  cr_pkcs8 :: "'key \<Rightarrow> string result"

record sign_request =
  sq_csr :: string
  sq_subject :: string

definition new_sign_request :: "'key crypto \<Rightarrow> string \<Rightarrow> ('key \<times> sign_request) result" where
  "new_sign_request C subject =
     and_then (cr_generate C) (\<lambda>private_key.
     and_then (cr_create_request C subject private_key) (\<lambda>csr.
     and_then (cr_parse_request C csr) (\<lambda>cr.
       (case cr_check_signature C cr of
          Some e \<Rightarrow> Inl e
        | None \<Rightarrow> Inr (private_key, \<lparr>sq_csr = cr, sq_subject = subject\<rparr>)))))"

section \<open>Bootstrap\<close>

record bootstrap_config =
  bc_subject :: string
  bc_token :: string
  bc_cert_dir :: string
  bc_url :: string

record http_request =
  hr_method :: string
  hr_url :: string
  hr_headers :: "(string \<times> string) list"
  hr_body :: sign_request

record sign_response =
  sn_chain :: "string option list"
  sn_ca :: "string option"

record http_response =
  hp_status :: nat
  hp_content :: string
  hp_decoded :: "sign_response result"

record net =
  nt_new_request :: "string \<Rightarrow> error option"
  nt_do :: "http_request \<Rightarrow> http_response result"

definition bootstrap_endpoint :: "string \<Rightarrow> string" where
  "bootstrap_endpoint url = trim_right url ''/'' @ ''/install/request''"

definition bootstrap_request :: "bootstrap_config \<Rightarrow> sign_request \<Rightarrow> http_request" where
  "bootstrap_request c body =
     \<lparr>hr_method = ''POST'', hr_url = bootstrap_endpoint (bc_url c),
      hr_headers = [(''Content-Type'', ''application/json''), (''X-Token'', bc_token c),
                    (''User-Agent'', ''Tessa Client SDK 0.1'')],
      hr_body = body\<rparr>"

definition encode_private_key :: "'key crypto \<Rightarrow> 'key \<Rightarrow> string result" where
  "encode_private_key C key = and_then (cr_pkcs8 C key) (\<lambda>b. Inr (pem_encode ''PRIVATE KEY'' b))"

text \<open>\<open>encodeX509\<close> reads the bytes of every certificate; encoding into memory does not fail.\<close>

fun encode_x509 :: "string option list \<Rightarrow> string outcome" where
  "encode_x509 [] = Returns []"
| "encode_x509 (None # certs) = Panics ''nil pointer dereference''"
| "encode_x509 (Some raw # certs) =
     (case encode_x509 certs of
        Panics m \<Rightarrow> Panics m
      | Returns text \<Rightarrow> Returns (pem_encode ''CERTIFICATE'' raw @ text))"

text \<open>
  The three writes (octal 644, 644, 600).  The private key is encoded after the certificates
  have been written.
\<close>

definition save_credentials ::
  "'key crypto \<Rightarrow> string \<Rightarrow> 'key \<Rightarrow> string \<Rightarrow> string \<Rightarrow> fs \<Rightarrow> error option \<times> fs" where
  "save_credentials C dir key chain_pem ca_pem s =
     (case write_file (dir @ ''/root.crt'') ca_pem 420 s of
        (Some e, s1) \<Rightarrow> (Some e, s1)
      | (None, s1) \<Rightarrow>
     (case write_file (dir @ ''/device.crt'') chain_pem 420 s1 of
        (Some e, s2) \<Rightarrow> (Some e, s2)
      | (None, s2) \<Rightarrow>
     (case encode_private_key C key of
        Inl e \<Rightarrow> (Some e, s2)
      | Inr key_pem \<Rightarrow> write_file (dir @ ''/device.key'') key_pem 384 s2)))"

definition device_bootstrap ::
  "'key crypto \<Rightarrow> net \<Rightarrow> bootstrap_config \<Rightarrow> fs \<Rightarrow> error option outcome \<times> fs" where
  "device_bootstrap C N c s =
     (case mkdir_all (bc_cert_dir c) 448 s of
        (Some e, s1) \<Rightarrow> (Returns (Some e), s1)
      | (None, s1) \<Rightarrow>
     (case new_sign_request C (bc_subject c) of
        Inl e \<Rightarrow> (Returns (Some e), s1)
      | Inr (private_key, sign_req) \<Rightarrow>
     (case nt_new_request N (bootstrap_endpoint (bc_url c)) of
        Some e \<Rightarrow> (Returns (Some e), s1)
      | None \<Rightarrow>
     (case nt_do N (bootstrap_request c sign_req) of
        Inl e \<Rightarrow> (Returns (Some e), s1)
      | Inr resp \<Rightarrow>
          if hp_status resp \<noteq> 200 then
            (Returns (Some (Error (''error response: '' @ hp_content resp @ '' ('' @
               itoa (int (hp_status resp)) @ '')''))), s1)
          else
            (case hp_decoded resp of
               Inl (Error m) \<Rightarrow> (Returns (Some (Error (''error decoding response: '' @ m))), s1)
             | Inr sign_resp \<Rightarrow>
            (case encode_x509 (sn_chain sign_resp) of
               Panics m \<Rightarrow> (Panics m, s1)
             | Returns chain_pem \<Rightarrow>
            (case sn_ca sign_resp of
               None \<Rightarrow> (Panics ''nil pointer dereference'', s1)
             | Some ca \<Rightarrow>
                 (case save_credentials C (bc_cert_dir c) private_key chain_pem
                         (pem_encode ''CERTIFICATE'' ca) s1 of
                    (e, s2) \<Rightarrow> (Returns e, s2)))))))))"

section \<open>Lemmas\<close>

lemma filter_break_lines:
  "\<forall>c \<in> set s. \<not> newline_char c \<Longrightarrow> filter (\<lambda>c. \<not> newline_char c) (break_lines s) = s"
proof (induction s rule: break_lines.induct)
  case (1 s)
  show ?case
  proof (cases "s = []")
    case False
    have "\<forall>c \<in> set (drop 64 s). \<not> newline_char c" using 1(2) by (meson in_set_dropD)
    moreover have "filter (\<lambda>c. \<not> newline_char c) (take 64 s) = take 64 s"
      using 1(2) by (intro filter_True) (meson in_set_takeD)
    ultimately show ?thesis
      using 1(1) False by (subst break_lines.simps) (simp add: newline_def newline_char_def)
  qed (simp add: break_lines.simps)
qed

text \<open>The body of a PEM block decodes to the bytes that were encoded.\<close>

lemma pem_body: "b64_decode (break_lines (b64_encode bytes)) = Some bytes"
  by (rule b64_decode_encode, rule filter_break_lines) (use b64_encode_chars in blast)

definition device_files :: "string \<Rightarrow> string \<Rightarrow> string \<Rightarrow> string \<Rightarrow> (string \<times> string \<times> mode) list" where
  "device_files dir ca_pem chain_pem key_pem =
     [(dir @ ''/root.crt'', ca_pem, 420), (dir @ ''/device.crt'', chain_pem, 420),
      (dir @ ''/device.key'', key_pem, 384)]"

lemma save_credentials_ok:
  "save_credentials C dir key chain_pem ca_pem s = (None, s') \<Longrightarrow>
     \<exists>key_pem. encode_private_key C key = Inr key_pem \<and>
       write_files write_file (device_files dir ca_pem chain_pem key_pem) s = (None, s')"
  by (auto simp: save_credentials_def device_files_def split: prod.splits option.splits sum.splits)

lemma device_paths_distinct:
  assumes "dir \<noteq> []"
  shows "distinct (map (\<lambda>(q, _). at s q) (device_files dir ca chain key))"
  using resolve_child [OF assms, of "''root.crt''"] resolve_child [OF assms, of "''device.crt''"]
    resolve_child [OF assms, of "''device.key''"]
  by (simp add: device_files_def plain_name_def)

text \<open>What a successful bootstrap has done.\<close>

lemma device_bootstrap_ok:
  assumes "device_bootstrap C N c s = (Returns None, s')"
  obtains key csr resp answer chain_pem ca s1 where
      "new_sign_request C (bc_subject c) = Inr (key, csr)"
      "nt_do N (bootstrap_request c csr) = Inr resp" "hp_status resp = 200"
      "hp_decoded resp = Inr answer" "encode_x509 (sn_chain answer) = Returns chain_pem"
      "sn_ca answer = Some ca" "mkdir_all (bc_cert_dir c) 448 s = (None, s1)"
      "save_credentials C (bc_cert_dir c) key chain_pem (pem_encode ''CERTIFICATE'' ca) s1 = (None, s')"
  using assms unfolding device_bootstrap_def
  by (auto split: prod.splits option.splits sum.splits outcome.splits if_splits error.splits)

text \<open>A bootstrap changes no setting of the file system and loses no file.\<close>

lemma save_credentials_keeps:
  assumes "save_credentials C dir key chain_pem ca_pem s = (None, s')"
  shows "fs_cwd s' = fs_cwd s" and "fs_denied s' = fs_denied s"
    and "content s q \<noteq> None \<Longrightarrow> content s' q \<noteq> None"
proof -
  from assms obtain s1 s2 key_pem where
      w: "write_file (dir @ ''/root.crt'') ca_pem 420 s = (None, s1)"
        "write_file (dir @ ''/device.crt'') chain_pem 420 s1 = (None, s2)"
        "write_file (dir @ ''/device.key'') key_pem 384 s2 = (None, s')"
    unfolding save_credentials_def by (auto split: prod.splits option.splits sum.splits)
  note env = write_file_env [of "dir @ ''/root.crt''" ca_pem 420 s, unfolded w snd_conv]
    write_file_env [of "dir @ ''/device.crt''" chain_pem 420 s1, unfolded w snd_conv]
    write_file_env [of "dir @ ''/device.key''" key_pem 384 s2, unfolded w snd_conv]
  show "fs_cwd s' = fs_cwd s" and "fs_denied s' = fs_denied s" using env by simp_all
  show "content s' q \<noteq> None" if "content s q \<noteq> None"
    using that w write_file_keeps_files by (metis fst_conv snd_conv)
qed

lemma device_bootstrap_keeps:
  assumes "device_bootstrap C N c s = (Returns None, s')"
  shows "fs_cwd s' = fs_cwd s" and "fs_denied s' = fs_denied s"
    and "content s q \<noteq> None \<Longrightarrow> content s' q \<noteq> None"
proof -
  from assms obtain key chain_pem ca s1 where s1: "mkdir_all (bc_cert_dir c) 448 s = (None, s1)"
    and save: "save_credentials C (bc_cert_dir c) key chain_pem (pem_encode ''CERTIFICATE'' ca) s1 = (None, s')"
    by (rule device_bootstrap_ok)
  note same = mkdir_all_env [of "bc_cert_dir c" 448 s, unfolded s1 snd_conv]
    mkdir_all_content [of "bc_cert_dir c" 448 s, unfolded s1 snd_conv]
  from save_credentials_keeps [OF save] same
  show "fs_cwd s' = fs_cwd s" "fs_denied s' = fs_denied s"
    "content s q \<noteq> None \<Longrightarrow> content s' q \<noteq> None" by simp_all
qed

lemma device_bootstrap_refused:
  assumes "\<And>csr resp. nt_do N (bootstrap_request c csr) = Inr resp \<Longrightarrow> hp_status resp \<noteq> 200"
  shows "\<exists>e. device_bootstrap C N c s = (Returns (Some e), snd (mkdir_all (bc_cert_dir c) 448 s))"
  using assms unfolding device_bootstrap_def
  by (auto split: prod.splits option.splits sum.splits)

lemma device_bootstrap_saved:
  assumes "bc_cert_dir c \<noteq> []" and "device_bootstrap C N c s = (Returns None, s')"
  shows "\<exists>key csr resp answer chain_pem ca key_pem.
      new_sign_request C (bc_subject c) = Inr (key, csr) \<and> sq_subject csr = bc_subject c \<and>
      nt_do N (bootstrap_request c csr) = Inr resp \<and> hp_status resp = 200 \<and>
      hp_decoded resp = Inr answer \<and> sn_ca answer = Some ca \<and>
      encode_x509 (sn_chain answer) = Returns chain_pem \<and> encode_private_key C key = Inr key_pem \<and>
      content s' (bc_cert_dir c @ ''/root.crt'') = Some (pem_encode ''CERTIFICATE'' ca) \<and>
      content s' (bc_cert_dir c @ ''/device.crt'') = Some chain_pem \<and>
      content s' (bc_cert_dir c @ ''/device.key'') = Some key_pem \<and>
      perm_of s' (bc_cert_dir c @ ''/device.key'') =
        Some (case perm_of s (bc_cert_dir c @ ''/device.key'') of Some old \<Rightarrow> old | None \<Rightarrow> masked s 384)"
  using assms(2)
  proof (cases rule: device_bootstrap_ok)
    case (1 key csr resp answer chain_pem ca s1)
    let ?ca = "pem_encode ''CERTIFICATE'' ca"
    from save_credentials_ok [OF 1(8)] obtain key_pem where key: "encode_private_key C key = Inr key_pem"
      and wr: "write_files write_file (device_files (bc_cert_dir c) ?ca chain_pem key_pem) s1 = (None, s')"
      by blast
    have s1: "s1 = snd (mkdir_all (bc_cert_dir c) 448 s)" using 1(7) by simp
    have "fst (write_files write_file (device_files (bc_cert_dir c) ?ca chain_pem key_pem) s1) = None"
      using wr by simp
    note files = files.write_files_ok [OF this device_paths_distinct [OF assms(1)], unfolded wr snd_conv]
    have mem: "(bc_cert_dir c @ ''/root.crt'', ?ca, 420)
          \<in> set (device_files (bc_cert_dir c) ?ca chain_pem key_pem)"
        "(bc_cert_dir c @ ''/device.crt'', chain_pem, 420)
          \<in> set (device_files (bc_cert_dir c) ?ca chain_pem key_pem)"
        "(bc_cert_dir c @ ''/device.key'', key_pem, 384)
          \<in> set (device_files (bc_cert_dir c) ?ca chain_pem key_pem)"
      by (simp_all add: device_files_def)
    have "sq_subject csr = bc_subject c"
      using 1(1) by (auto simp: new_sign_request_def outcome_simps split: option.splits)
    moreover have "masked s1 384 = masked s 384" by (simp add: s1 masked_def)
    moreover have "perm_of s1 q = perm_of s q" for q by (simp add: s1)
    ultimately have facts: "sq_subject csr = bc_subject c" "perm_of s' (bc_cert_dir c @ ''/device.key'') =
        Some (case perm_of s (bc_cert_dir c @ ''/device.key'') of Some old \<Rightarrow> old | None \<Rightarrow> masked s 384)"
      using files [OF mem(3)] by (simp_all cong: option.case_cong)
    show ?thesis
      by (rule exI [of _ key], rule exI [of _ csr], rule exI [of _ resp], rule exI [of _ answer],
          rule exI [of _ chain_pem], rule exI [of _ ca], rule exI [of _ key_pem])
        (use 1(1-6) key facts files [OF mem(1)] files [OF mem(2)] files [OF mem(3)] in simp)
  qed

section \<open>Properties\<close>

text \<open>
  C13.  What a bootstrap does to the file system.  When it succeeds, the certificate directory
  holds the CA and the certificate chain of an answer with status 200 to a request that
  carried the token and a certificate request for the device's name, and the private key of
  that request, all as PEM; a new key file is readable by its owner only.  As long as no
  request is answered with status 200, the result is an error and no file is written or
  changed.
\<close>

theorem device_bootstrap_effect:
  assumes "bc_cert_dir c \<noteq> []" and "device_bootstrap C N c s = (r, s')"
  shows "(r = Returns None \<longrightarrow>
      (\<exists>key csr resp answer chain_pem ca key_pem.
        new_sign_request C (bc_subject c) = Inr (key, csr) \<and> sq_subject csr = bc_subject c \<and>
        nt_do N (bootstrap_request c csr) = Inr resp \<and> hp_status resp = 200 \<and>
        hp_decoded resp = Inr answer \<and> sn_ca answer = Some ca \<and>
        encode_x509 (sn_chain answer) = Returns chain_pem \<and> encode_private_key C key = Inr key_pem \<and>
        content s' (bc_cert_dir c @ ''/root.crt'') = Some (pem_encode ''CERTIFICATE'' ca) \<and>
        content s' (bc_cert_dir c @ ''/device.crt'') = Some chain_pem \<and>
        content s' (bc_cert_dir c @ ''/device.key'') = Some key_pem \<and>
        perm_of s' (bc_cert_dir c @ ''/device.key'') =
          Some (case perm_of s (bc_cert_dir c @ ''/device.key'') of
                  Some old \<Rightarrow> old | None \<Rightarrow> masked s 384))) \<and>
    ((\<forall>csr resp. nt_do N (bootstrap_request c csr) = Inr resp \<longrightarrow> hp_status resp \<noteq> 200) \<longrightarrow>
      (\<exists>e. r = Returns (Some e)) \<and>
      (\<forall>q. content s' q = content s q \<and> perm_of s' q = perm_of s q))"
proof (intro conjI impI)
  assume "r = Returns None"
  with device_bootstrap_saved [OF assms(1)] assms(2)
  show "\<exists>key csr resp answer chain_pem ca key_pem.
      new_sign_request C (bc_subject c) = Inr (key, csr) \<and> sq_subject csr = bc_subject c \<and>
      nt_do N (bootstrap_request c csr) = Inr resp \<and> hp_status resp = 200 \<and>
      hp_decoded resp = Inr answer \<and> sn_ca answer = Some ca \<and>
      encode_x509 (sn_chain answer) = Returns chain_pem \<and> encode_private_key C key = Inr key_pem \<and>
      content s' (bc_cert_dir c @ ''/root.crt'') = Some (pem_encode ''CERTIFICATE'' ca) \<and>
      content s' (bc_cert_dir c @ ''/device.crt'') = Some chain_pem \<and>
      content s' (bc_cert_dir c @ ''/device.key'') = Some key_pem \<and>
      perm_of s' (bc_cert_dir c @ ''/device.key'') =
        Some (case perm_of s (bc_cert_dir c @ ''/device.key'') of Some old \<Rightarrow> old | None \<Rightarrow> masked s 384)"
    by blast
next
  assume "\<forall>csr resp. nt_do N (bootstrap_request c csr) = Inr resp \<longrightarrow> hp_status resp \<noteq> 200"
  then obtain e where "device_bootstrap C N c s = (Returns (Some e), snd (mkdir_all (bc_cert_dir c) 448 s))"
    using device_bootstrap_refused [of N c C s] by blast
  with assms(2) show "\<exists>e. r = Returns (Some e)"
    and "\<forall>q. content s' q = content s q \<and> perm_of s' q = perm_of s q" by auto
qed

text \<open>A sample device: keys are numbers, and the control plane answers every request.\<close>

definition demo_crypto :: "nat crypto" where
  "demo_crypto =
     \<lparr>cr_generate = Inr 7, cr_create_request = (\<lambda>subject _. Inr subject), cr_parse_request = Inr,
      cr_check_signature = (\<lambda>_. None), cr_pkcs8 = (\<lambda>_. Inr ''k'')\<rparr>"

definition demo_net :: net where
  "demo_net =
     \<lparr>nt_new_request = (\<lambda>_. None),
      nt_do = (\<lambda>_. Inr \<lparr>hp_status = 200, hp_content = [],
                        hp_decoded = Inr \<lparr>sn_chain = [Some ''c''], sn_ca = Some ''r''\<rparr>\<rparr>)\<rparr>"

definition demo_bootstrap :: bootstrap_config where
  "demo_bootstrap =
     \<lparr>bc_subject = ''rpi3'', bc_token = ''t'', bc_cert_dir = ''/d/credentials'',
      bc_url = ''https://device-api.fyve.dev/''\<rparr>"

definition demo_device_fs :: fs where
  "demo_device_fs = \<lparr>fs_nodes = [[''d''] \<mapsto> Dir 493], fs_cwd = [], fs_umask = 18,
     fs_denied = (\<lambda>k. False), fs_nospace = (\<lambda>k. False)\<rparr>"

lemma demo_bootstrap_returns:
  "fst (device_bootstrap demo_crypto demo_net demo_bootstrap demo_device_fs) = Returns None"
  by (simp add: device_bootstrap_def demo_bootstrap_def demo_device_fs_def demo_net_def demo_crypto_def
      mkdir_all_def resolve_def rooted_def has_prefix_def new_sign_request_def outcome_simps
      save_credentials_def write_file_def encode_private_key_def is_dir_def Let_def)

theorem device_bootstrap_effect_witness:
  "perm_of (snd (device_bootstrap demo_crypto demo_net demo_bootstrap demo_device_fs))
     ''/d/credentials/device.key'' = Some 384"
proof -
  let ?r = "device_bootstrap demo_crypto demo_net demo_bootstrap demo_device_fs"
  have dir: "bc_cert_dir demo_bootstrap \<noteq> []" by (simp add: demo_bootstrap_def)
  have "?r = (fst ?r, snd ?r)" by simp
  from conjunct1 [OF device_bootstrap_effect [OF dir this]] demo_bootstrap_returns
  have "perm_of (snd ?r) (bc_cert_dir demo_bootstrap @ ''/device.key'') =
      Some (case perm_of demo_device_fs (bc_cert_dir demo_bootstrap @ ''/device.key'') of
        Some old \<Rightarrow> old | None \<Rightarrow> masked demo_device_fs 384)" by blast
  moreover have "perm_of demo_device_fs (bc_cert_dir demo_bootstrap @ ''/device.key'') = None"
    by (simp add: perm_of_def demo_device_fs_def demo_bootstrap_def resolve_def rooted_def has_prefix_def)
  moreover have "masked demo_device_fs 384 = 384" by (simp add: masked_def demo_device_fs_def)
  ultimately show ?thesis by (simp add: demo_bootstrap_def)
qed

end
