(* ===== verification/CLI.thy ===== *)
theory CLI
  imports Device Commands
begin

text \<open>
  \<open>cmd\<close>: the commands of \<open>tessad\<close> that do something: \<open>up\<close> (\<open>up.go\<close>) and \<open>start\<close> (\<open>start.go\<close>).

  Flags are the record \<open>cli_flags\<close>; the package variable \<open>cfgFile\<close> is the argument \<open>cfg_file\<close>.
  YAML is third-party: \<open>to_yaml\<close> and \<open>unyaml\<close> are arguments.  Between two attempts of \<open>start\<close> to
  read the configuration anything may happen to the file system, so the retry loop reads the
  file systems \<open>polls 0\<close>, \<open>polls 1\<close> and so on; it may never end, and is a partial function.
\<close>

section \<open>Options\<close>

record cli_flags =
  fl_device_name :: string
  fl_data :: string
  fl_server :: string
  fl_token :: string
  fl_force :: bool

definition default_data_dir :: string where
  "default_data_dir = ''/etc/tessad''"

definition default_bootstrap_server :: string where
  "default_bootstrap_server = ''https://device-api.fyve.dev''"

definition default_flags :: cli_flags where
  "default_flags =
     \<lparr>fl_device_name = [], fl_data = default_data_dir, fl_server = default_bootstrap_server,
      fl_token = [], fl_force = False\<rparr>"

definition get_bootstrap_opts :: "cli_flags \<Rightarrow> string \<times> string \<times> string" where
  "get_bootstrap_opts fl = (fl_device_name fl, fl_data fl, fl_server fl)"

section \<open>The command up\<close>

definition up_pre_run :: "string \<Rightarrow> cli_flags \<Rightarrow> fs \<Rightarrow> error option" where
  "up_pre_run cfg_file fl s =
     (if fl_device_name fl = [] then Some (Error ''device name is required'')
      else if fl_token fl = [] then Some (Error ''token is required'')
      else if stat_ok s cfg_file \<and> \<not> fl_force fl then
        Some (Error (''Config file already exists at '' @ cfg_file @ ''. Use --force to continue.'' @ newline))
      else None)"

definition credentials_dir :: "string \<Rightarrow> string" where
  "credentials_dir data_dir = data_dir @ ''/credentials''"

definition bootstrapped_config :: "string \<Rightarrow> string \<Rightarrow> config" where
  "bootstrapped_config device_name data_dir =
     \<lparr>cfg_device = device_name, cfg_data = data_dir, cfg_nats = None, cfg_tunnel = None,
      cfg_tls = Some \<lparr>tls_ca = data_dir @ ''/credentials/root.crt'',
                      tls_key = data_dir @ ''/credentials/device.key'',
                      tls_cert = data_dir @ ''/credentials/device.crt''\<rparr>\<rparr>"

text \<open>\<open>writeConfig\<close>, octal 600.\<close>

definition write_config ::
  "(config \<Rightarrow> string result) \<Rightarrow> string \<Rightarrow> config \<Rightarrow> fs \<Rightarrow> error option \<times> fs" where
  "write_config to_yaml cfg_file conf s =
     (case to_yaml conf of
        Inl e \<Rightarrow> (Some e, s)
      | Inr text \<Rightarrow> write_file cfg_file text 384 s)"

definition bootstrap ::
  "(config \<Rightarrow> string result) \<Rightarrow> 'key crypto \<Rightarrow> net \<Rightarrow> env \<Rightarrow> string \<Rightarrow>
   string \<Rightarrow> string \<Rightarrow> string \<Rightarrow> string \<Rightarrow> fs \<Rightarrow> config result outcome \<times> fs" where
  "bootstrap to_yaml C N env cfg_file device_name token data_dir server_url s =
     (let name = (if device_name = [] then device_serial env s else device_name);
          conf = bootstrapped_config name data_dir
      in case device_bootstrap C N
                \<lparr>bc_subject = name, bc_token = token, bc_cert_dir = credentials_dir data_dir,
                 bc_url = server_url\<rparr> s of
           (Panics m, s1) \<Rightarrow> (Panics m, s1)
         | (Returns (Some e), s1) \<Rightarrow> (Returns (Inl e), s1)
         | (Returns None, s1) \<Rightarrow>
             (case write_config to_yaml cfg_file conf s1 of
                (Some (Error m), s2) \<Rightarrow> (Returns (Inl (Error (''writing config: '' @ m))), s2)
              | (None, s2) \<Rightarrow> (Returns (Inr conf), s2)))"

text \<open>The command: the exit status, after the checks of \<open>PreRunE\<close>.\<close>

definition up_command ::
  "(config \<Rightarrow> string result) \<Rightarrow> 'key crypto \<Rightarrow> net \<Rightarrow> env \<Rightarrow> string \<Rightarrow> cli_flags \<Rightarrow> fs \<Rightarrow>
   nat outcome \<times> fs" where
  "up_command to_yaml C N env cfg_file fl s =
     (case up_pre_run cfg_file fl s of
        Some _ \<Rightarrow> (Returns 1, s)
      | None \<Rightarrow>
          (case get_bootstrap_opts fl of
             (device_name, data_dir, server_url) \<Rightarrow>
               (case bootstrap to_yaml C N env cfg_file device_name (fl_token fl) data_dir server_url s of
                  (Panics m, s1) \<Rightarrow> (Panics m, s1)
                | (Returns (Inl _), s1) \<Rightarrow> (Returns 1, s1)
                | (Returns (Inr _), s1) \<Rightarrow> (Returns 0, s1))))"

section \<open>The command start\<close>

definition try_first_bootstrap ::
  "(config \<Rightarrow> string result) \<Rightarrow> 'key crypto \<Rightarrow> net \<Rightarrow> env \<Rightarrow> string \<Rightarrow> cli_flags \<Rightarrow> fs \<Rightarrow>
   config result outcome \<times> fs" where
  "try_first_bootstrap to_yaml C N env cfg_file fl s =
     (case get_bootstrap_opts fl of
        (device_name, data_dir, server_url) \<Rightarrow>
          let token_file = data_dir @ ''/token'' in
          if \<not> stat_ok s token_file then (Returns (Inl not_exist_error), s)
          else
            (case read_file s token_file of
               Inl e \<Rightarrow> (Returns (Inl e), s)
             | Inr token \<Rightarrow>
                 (case bootstrap to_yaml C N env cfg_file device_name token data_dir server_url s of
                    (Panics m, s1) \<Rightarrow> (Panics m, s1)
                  | (Returns (Inl e), s1) \<Rightarrow> (Returns (Inl e), s1)
                  | (Returns (Inr conf), s1) \<Rightarrow> (Returns (Inr conf), snd (remove_file token_file s1)))))"

text \<open>The retry loop: the number of the attempt that succeeds, with the configuration.\<close>

partial_function (option) wait_for_config ::
  "(string \<Rightarrow> config result) \<Rightarrow> env \<Rightarrow> string \<Rightarrow> (nat \<Rightarrow> fs) \<Rightarrow> nat \<Rightarrow> string \<Rightarrow>
   (nat \<times> config \<times> string) option" where
  "wait_for_config unyaml env cfg_file polls n device_name =
     (case load_config unyaml env (polls n) cfg_file device_name of
        (Inr c, name) \<Rightarrow> Some (n, c, name)
      | (Inl _, name) \<Rightarrow> wait_for_config unyaml env cfg_file polls (Suc n) name)"

text \<open>
  From the first attempt to \<open>startServer\<close>: the configuration pointer (the error of the reload is
  dropped, \<open>None\<close> is the nil pointer) and \<open>config.DeviceName\<close>.  The result is \<open>None\<close> if the loop
  does not end.
\<close>

definition reload_config ::
  "(string \<Rightarrow> config result) \<Rightarrow> env \<Rightarrow> string \<Rightarrow> fs \<Rightarrow> string \<Rightarrow> config option \<times> string" where
  "reload_config unyaml env cfg_file s device_name =
     (case load_config unyaml env s cfg_file device_name of
        (Inr c, name) \<Rightarrow> (Some c, name)
      | (Inl _, name) \<Rightarrow> (None, name))"

definition start_config ::
  "(config \<Rightarrow> string result) \<Rightarrow> (string \<Rightarrow> config result) \<Rightarrow> 'key crypto \<Rightarrow> net \<Rightarrow> env \<Rightarrow>
   string \<Rightarrow> cli_flags \<Rightarrow> fs \<Rightarrow> (nat \<Rightarrow> fs) \<Rightarrow> (config option \<times> string) outcome option" where
  "start_config to_yaml unyaml C N env cfg_file fl s polls =
     (case load_config unyaml env s cfg_file [] of
        (Inr c, name) \<Rightarrow> Some (Returns (Some c, name))
      | (Inl _, name) \<Rightarrow>
          (case try_first_bootstrap to_yaml C N env cfg_file fl s of
             (Panics m, _) \<Rightarrow> Some (Panics m)
           | (Returns (Inr _), s1) \<Rightarrow> Some (Returns (reload_config unyaml env cfg_file s1 name))
           | (Returns (Inl _), _) \<Rightarrow>
               map_option (\<lambda>(n, _, name'). Returns (reload_config unyaml env cfg_file (polls (Suc n)) name'))
                 (wait_for_config unyaml env cfg_file polls 0 name)))"

text \<open>
  \<open>startServer\<close> up to its wait for a signal, and from the signal on.  The loaded configuration is
  a pointer: with nil, reading its fields panics.  \<open>connect\<close> is \<open>nats.Connect\<close>.
\<close>

definition start_server ::
  "('st, 'pst, 'f, 'key, 'signer, 'sub) libs \<Rightarrow> (string \<Rightarrow> nats_option list \<Rightarrow> error option) \<Rightarrow>
   env \<Rightarrow> string \<Rightarrow> config option \<Rightarrow>
   ('st, 'pst, 'f, 'key, 'signer, 'sub) daemon result outcome" where
  "start_server L connect env device conf =
     (case (case conf of
              Some c \<Rightarrow> nats_options env c
            | None \<Rightarrow>
                if has_prefix (nats_url env) ''tls://'' then Panics ''nil pointer dereference''
                else Returns [NatsTimeout 30]) of
        Panics m \<Rightarrow> Panics m
      | Returns opts \<Rightarrow>
          (case connect (nats_url env) opts of
             Some e \<Rightarrow> Returns (Inl e)
           | None \<Rightarrow>
               (case conf of
                  None \<Rightarrow> Panics ''nil pointer dereference''
                | Some c \<Rightarrow>
                    (case cfg_tunnel c of
                       None \<Rightarrow> Panics ''nil pointer dereference''
                     | Some tc \<Rightarrow>
                         (case new_manager (lb_proxies L) (lb_frp L) device tc of
                            Inl (Error m) \<Rightarrow> Returns (Inl (Error (''create tunnel manager: '' @ m)))
                          | Inr tunnel \<Rightarrow>
                              (case initialize L device (new_command_manager L tunnel) of
                                 (Some (Error m), _) \<Rightarrow>
                                   Returns (Inl (Error (''initialize Command Manager: '' @ m)))
                               | (None, d) \<Rightarrow> Returns (Inr d)))))))"

text \<open>After the signal; the errors of draining and of \<open>Stop\<close> are only logged.\<close>

definition shutdown_server ::
  "('st, 'pst, 'f, 'key, 'signer, 'sub) libs \<Rightarrow> ('st, 'pst, 'f, 'key, 'signer, 'sub) daemon \<Rightarrow>
   ('st, 'pst, 'f, 'key, 'signer, 'sub) daemon" where
  "shutdown_server L d =
     (let d1 = snd (stop_manager L d) in d1\<lparr>dm_tunnel := Tunnel.stop (lb_frp L) (dm_tunnel d1)\<rparr>)"

section \<open>Lemmas\<close>

lemma bootstrap_ok:
  assumes "bootstrap to_yaml C N env cfg_file device_name token data_dir server_url s = (Returns (Inr conf), s')"
  defines "name \<equiv> if device_name = [] then device_serial env s else device_name"
  obtains s1 doc where
      "conf = bootstrapped_config name data_dir"
      "device_bootstrap C N \<lparr>bc_subject = name, bc_token = token, bc_cert_dir = credentials_dir data_dir,
         bc_url = server_url\<rparr> s = (Returns None, s1)"
      "to_yaml conf = Inr doc" "write_file cfg_file doc 384 s1 = (None, s')"
  using assms unfolding bootstrap_def write_config_def Let_def
  by (auto split: prod.splits outcome.splits option.splits sum.splits error.splits)

lemma bootstrap_keeps:
  assumes "bootstrap to_yaml C N env cfg_file device_name token data_dir server_url s = (Returns (Inr conf), s')"
  shows "fs_cwd s' = fs_cwd s" and "fs_denied s' = fs_denied s"
    and "content s q \<noteq> None \<Longrightarrow> content s' q \<noteq> None"
proof -
  from assms obtain c s1 doc where boot: "device_bootstrap C N c s = (Returns None, s1)"
    and wr: "write_file cfg_file doc 384 s1 = (None, s')"
    by (rule bootstrap_ok)
  note env = write_file_env [of cfg_file doc 384 s1, unfolded wr snd_conv]
  note keeps = device_bootstrap_keeps [OF boot]
  show "fs_cwd s' = fs_cwd s" "fs_denied s' = fs_denied s" using env keeps by simp_all
  show "content s' q \<noteq> None" if "content s q \<noteq> None"
    using keeps(3) [OF that] write_file_keeps_files [of cfg_file doc 384 s1 q] wr by simp
qed

lemma bootstrap_config_file:
  assumes "bootstrap to_yaml C N env cfg_file device_name token data_dir server_url s = (Returns (Inr conf), s')"
  obtains doc where "to_yaml conf = Inr doc" "read_file s' cfg_file = Inr doc"
  using assms
proof (cases rule: bootstrap_ok)
  case (1 s1 doc)
  then show ?thesis using that write_file_read [of cfg_file doc 384 s1] by simp
qed

lemma load_config_fst: "fst (load_config unyaml env s f g) = fst (load_config unyaml env s f [])"
  by (auto simp: load_config_def split: sum.split option.split)

text \<open>The retry loop finds the first readable configuration, and only if there is one.\<close>

lemma wait_for_config_finds:
  assumes "fst (load_config unyaml env (polls (n + k)) cfg_file []) = Inr c"
    and "\<forall>j < k. \<exists>e. fst (load_config unyaml env (polls (n + j)) cfg_file []) = Inl e"
  shows "wait_for_config unyaml env cfg_file polls n g = Some (n + k, c, cfg_device c)"
  using assms
proof (induction k arbitrary: n g)
  case 0
  then have c: "fst (load_config unyaml env (polls n) cfg_file g) = Inr c"
    using load_config_fst [of unyaml env "polls n" cfg_file g] by simp
  from c load_config_global [OF c] show ?case
    by (subst wait_for_config.simps) (simp add: split_beta)
next
  case (Suc k)
  obtain e where "fst (load_config unyaml env (polls n) cfg_file []) = Inl e"
    using Suc.prems(2) by fastforce
  then have e: "fst (load_config unyaml env (polls n) cfg_file g) = Inl e"
    using load_config_fst [of unyaml env "polls n" cfg_file g] by simp
  have IH: "wait_for_config unyaml env cfg_file polls (Suc n) g' = Some (Suc n + k, c, cfg_device c)" for g'
  proof (rule Suc.IH)
    show "fst (load_config unyaml env (polls (Suc n + k)) cfg_file []) = Inr c"
      using Suc.prems(1) by simp
    show "\<forall>j<k. \<exists>e. fst (load_config unyaml env (polls (Suc n + j)) cfg_file []) = Inl e"
      using Suc.prems(2) by (metis Suc_less_eq add_Suc_right add_Suc_shift)
  qed
  show ?case by (subst wait_for_config.simps) (use e IH in \<open>simp add: split_beta\<close>)
qed

lemma wait_for_config_found:
  assumes "wait_for_config unyaml env cfg_file polls n g = Some r"
  shows "\<exists>m c. fst (load_config unyaml env (polls m) cfg_file []) = Inr c"
proof (rule wait_for_config.raw_induct [where P = "\<lambda>unyaml env cfg_file polls n g r.
    \<exists>m c. fst (load_config unyaml env (polls m) cfg_file []) = Inr c", OF _ assms])
  fix wait unyaml env cfg_file polls n g and r :: "nat \<times> config \<times> string"
  assume IH: "\<And>unyaml env cfg_file polls n g r. wait unyaml env cfg_file polls n g = Some r \<Longrightarrow>
      \<exists>m c. fst (load_config unyaml env (polls m) cfg_file []) = Inr c"
    and step: "(case load_config unyaml env (polls n) cfg_file g of
        (Inl x, name) \<Rightarrow> wait unyaml env cfg_file polls (Suc n) name
      | (Inr c, name) \<Rightarrow> Some (n, c, name)) = Some r"
  show "\<exists>m c. fst (load_config unyaml env (polls m) cfg_file []) = Inr c"
  proof (cases "fst (load_config unyaml env (polls n) cfg_file g)")
    case (Inl e)
    with step have "wait unyaml env cfg_file polls (Suc n) (snd (load_config unyaml env (polls n) cfg_file g)) = Some r"
      by (simp add: case_prod_unfold)
    then show ?thesis by (rule IH)
  next
    case (Inr c)
    then show ?thesis using load_config_fst [of unyaml env "polls n" cfg_file g] by auto
  qed
qed

section \<open>Properties\<close>

text \<open>
  C12.  A successful bootstrap leaves a device that \<open>start\<close> can run, on the one condition that its
  name is not empty: the configuration file reads back (given that the YAML library reads
  what it wrote) as the configuration the bootstrap built, and the credentials files it
  names exist.  With an empty name, which a blank serial number file produces, the
  bootstrap reports success but the configuration is refused.
\<close>

theorem bootstrapped_config_loads:
  assumes "bootstrap to_yaml C N env cfg_file device_name token data_dir server_url s = (Returns (Inr conf), s')"
    and "\<And>doc. to_yaml conf = Inr doc \<Longrightarrow> unyaml doc = Inr conf"
  shows "cfg_device conf = (if device_name = [] then device_serial env s else device_name) \<and>
    cfg_tls conf = Some \<lparr>tls_ca = data_dir @ ''/credentials/root.crt'',
      tls_key = data_dir @ ''/credentials/device.key'', tls_cert = data_dir @ ''/credentials/device.crt''\<rparr> \<and>
    content s' (data_dir @ ''/credentials/root.crt'') \<noteq> None \<and>
    content s' (data_dir @ ''/credentials/device.key'') \<noteq> None \<and>
    content s' (data_dir @ ''/credentials/device.crt'') \<noteq> None \<and>
    fst (load_config unyaml env s' cfg_file g) =
      (if cfg_device conf = [] then Inl (Error ''device name was not set'')
       else Inr (conf\<lparr>cfg_tunnel := Some \<lparr>tc_server = tunnel_addr env,
         tc_ca = data_dir @ ''/credentials/root.crt'', tc_key = data_dir @ ''/credentials/device.key'',
         tc_cert = data_dir @ ''/credentials/device.crt''\<rparr>\<rparr>))"
  using assms(1)
proof (cases rule: bootstrap_ok)
  case (1 s1 doc)
  let ?dir = "credentials_dir data_dir"
  have dir: "?dir \<noteq> []" by (simp add: credentials_dir_def)
  have wr: "fst (write_file cfg_file doc 384 s1) = None" and s': "s' = snd (write_file cfg_file doc 384 s1)"
    using 1(4) by simp_all
  obtain key csr resp answer chain ca key_pem where
      "content s1 (?dir @ ''/root.crt'') = Some (pem_encode ''CERTIFICATE'' ca)"
      "content s1 (?dir @ ''/device.crt'') = Some chain" "content s1 (?dir @ ''/device.key'') = Some key_pem"
    using device_bootstrap_saved [OF _ 1(2)] dir by auto
  then have "content s' (?dir @ ''/root.crt'') \<noteq> None" "content s' (?dir @ ''/device.crt'') \<noteq> None"
      "content s' (?dir @ ''/device.key'') \<noteq> None"
    unfolding s' by (simp_all add: write_file_keeps_files [OF wr])
  moreover have "read_file s' cfg_file = Inr doc" unfolding s' by (rule write_file_read [OF wr])
  moreover have "unyaml doc = Inr conf" using 1(3) by (rule assms(2))
  ultimately show ?thesis
    using 1(1) by (simp add: load_config_def bootstrapped_config_def credentials_dir_def)
qed

definition demo_yaml :: "config \<Rightarrow> string result" where
  "demo_yaml c = Inr (cfg_device c)"

definition demo_unyaml :: "string \<Rightarrow> config result" where
  "demo_unyaml doc = Inr (bootstrapped_config doc ''/d'')"

lemma demo_cli_bootstrap:
  "fst (bootstrap demo_yaml demo_crypto demo_net (\<lambda>_. []) ''/d/c.yaml'' ''rpi3'' ''t'' ''/d''
     ''https://device-api.fyve.dev/'' demo_device_fs) = Returns (Inr (bootstrapped_config ''rpi3'' ''/d''))"
  by (simp add: bootstrap_def credentials_dir_def device_bootstrap_def demo_device_fs_def demo_net_def
      demo_crypto_def mkdir_all_def resolve_def rooted_def has_prefix_def new_sign_request_def
      outcome_simps save_credentials_def write_file_def encode_private_key_def is_dir_def
      write_config_def demo_yaml_def Let_def)

theorem bootstrapped_config_loads_witness:
  "\<exists>c. fst (load_config demo_unyaml (\<lambda>_. [])
     (snd (bootstrap demo_yaml demo_crypto demo_net (\<lambda>_. []) ''/d/c.yaml'' ''rpi3'' ''t'' ''/d''
        ''https://device-api.fyve.dev/'' demo_device_fs)) ''/d/c.yaml'' []) = Inr c"
proof -
  let ?r = "bootstrap demo_yaml demo_crypto demo_net (\<lambda>_. []) ''/d/c.yaml'' ''rpi3'' ''t'' ''/d''
     ''https://device-api.fyve.dev/'' demo_device_fs"
  have r: "?r = (Returns (Inr (bootstrapped_config ''rpi3'' ''/d'')), snd ?r)"
    using demo_cli_bootstrap by (simp add: prod_eq_iff)
  have law: "demo_yaml (bootstrapped_config ''rpi3'' ''/d'') = Inr doc \<Longrightarrow>
      demo_unyaml doc = Inr (bootstrapped_config ''rpi3'' ''/d'')" for doc
    by (simp add: demo_yaml_def demo_unyaml_def bootstrapped_config_def)
  have name: "cfg_device (bootstrapped_config ''rpi3'' ''/d'') \<noteq> []" by (simp add: bootstrapped_config_def)
  from bootstrapped_config_loads [OF r law, where g = "[]"] name show ?thesis by auto
qed

text \<open>
  C39.  The wait of \<open>start\<close> for a configuration: it ends exactly if some attempt finds a
  configuration that loads, and then at the first such attempt, with that configuration and
  its device name as \<open>config.DeviceName\<close>.
\<close>

theorem start_waits_for_first_config:
  "(wait_for_config unyaml env cfg_file polls 0 g \<noteq> None \<longleftrightarrow>
      (\<exists>n c. fst (load_config unyaml env (polls n) cfg_file []) = Inr c)) \<and>
   (\<forall>n c name. wait_for_config unyaml env cfg_file polls 0 g = Some (n, c, name) \<longrightarrow>
      fst (load_config unyaml env (polls n) cfg_file []) = Inr c \<and> name = cfg_device c \<and>
      (\<forall>k < n. \<exists>e. fst (load_config unyaml env (polls k) cfg_file []) = Inl e))"
proof -
  let ?ok = "\<lambda>n. \<exists>c. fst (load_config unyaml env (polls n) cfg_file []) = Inr c"
  have first: "\<exists>c. fst (load_config unyaml env (polls n) cfg_file []) = Inr c \<and>
      (\<forall>k < n. \<exists>e. fst (load_config unyaml env (polls k) cfg_file []) = Inl e) \<and>
      wait_for_config unyaml env cfg_file polls 0 g = Some (n, c, cfg_device c)"
    if n: "n = (LEAST n. ?ok n)" and ex: "\<exists>n. ?ok n" for n
  proof -
    obtain c where c: "fst (load_config unyaml env (polls n) cfg_file []) = Inr c"
      using LeastI_ex [OF ex] n by blast
    have less: "\<exists>e. fst (load_config unyaml env (polls k) cfg_file []) = Inl e" if "k < n" for k
      using not_less_Least [of k ?ok] that n by (cases "fst (load_config unyaml env (polls k) cfg_file [])") auto
    from wait_for_config_finds [of unyaml env polls 0 n cfg_file c g] c less show ?thesis by auto
  qed
  show ?thesis
  proof (intro conjI allI impI iffI)
    assume "wait_for_config unyaml env cfg_file polls 0 g \<noteq> None"
    then show "\<exists>n c. fst (load_config unyaml env (polls n) cfg_file []) = Inr c"
      using wait_for_config_found by blast
  next
    assume "\<exists>n c. fst (load_config unyaml env (polls n) cfg_file []) = Inr c"
    then show "wait_for_config unyaml env cfg_file polls 0 g \<noteq> None" using first [OF HOL.refl] by auto
  next
    fix n c name k
    assume w: "wait_for_config unyaml env cfg_file polls 0 g = Some (n, c, name)"
    then obtain c' where "fst (load_config unyaml env (polls n) cfg_file []) = Inr c'"
        "\<forall>k < n. \<exists>e. fst (load_config unyaml env (polls k) cfg_file []) = Inl e"
        "(c, name) = (c', cfg_device c')"
      using first [OF HOL.refl] wait_for_config_found [OF w] by auto
    then show "fst (load_config unyaml env (polls n) cfg_file []) = Inr c" "name = cfg_device c"
      "k < n \<Longrightarrow> \<exists>e. fst (load_config unyaml env (polls k) cfg_file []) = Inl e" by auto
  qed
qed

theorem start_waits_for_first_config_witness:
  "wait_for_config (\<lambda>_. Inr demo_config) (\<lambda>_. []) ''/d/c.yaml'' (\<lambda>_. demo_config_fs) 0 [] \<noteq> None"
proof -
  have "\<exists>c. fst (load_config (\<lambda>_. Inr demo_config) (\<lambda>_. []) demo_config_fs ''/d/c.yaml'' []) = Inr c"
    using demo_load by simp
  then show ?thesis
    using start_waits_for_first_config [of "\<lambda>_. Inr demo_config" "\<lambda>_. []" "''/d/c.yaml''"
        "\<lambda>_. demo_config_fs" "[]"] by blast
qed

end
