(* ===== verification/Lifecycle.thy ===== *)
theory Lifecycle
  imports CLI
begin

text \<open>
  The life of a \<open>tessad\<close> process: the command line (\<open>main.go\<close>, \<open>cmd/root.go\<close>, \<open>version.go\<close>,
  \<open>update.go\<close>, \<open>check.go\<close>), the command \<open>start\<close> as a whole (\<open>start.go\<close>), the daemon while it
  serves and its shutdown.

  Cobra is third-party: \<open>parse\<close> stands for what it makes of the flags and commands that the
  package registers and of the arguments, the command it chooses with the value of \<open>--config\<close>
  and of the command's flags.

  \<open>serving\<close> are the states of the daemon that \<open>start\<close> brings up, under every interleaving of
  \<open>daemon_step\<close> in which no stopped tunnel run returns its error late.
\<close>

section \<open>The command line\<close>

datatype subcommand = CheckCommand | StartCommand | UpCommand | UpdateCommand | VersionCommand

datatype flag_value = StringFlag string | BoolFlag bool

record cobra_flag =
  fg_name :: string
  fg_shorthand :: string
  fg_default :: flag_value
  fg_required :: bool

definition new_flag :: "string \<Rightarrow> string \<Rightarrow> flag_value \<Rightarrow> cobra_flag" where
  "new_flag name shorthand v =
     \<lparr>fg_name = name, fg_shorthand = shorthand, fg_default = v, fg_required = False\<rparr>"

record cobra_command =
  cb_use :: string
  cb_aliases :: "string list"
  cb_run :: subcommand
  cb_flags :: "cobra_flag list"

definition add_flags :: "cobra_flag list \<Rightarrow> cobra_command \<Rightarrow> cobra_command" where
  "add_flags fs c = c\<lparr>cb_flags := cb_flags c @ fs\<rparr>"

definition mark_flag_required :: "string \<Rightarrow> cobra_command \<Rightarrow> cobra_command" where
  "mark_flag_required name c =
     c\<lparr>cb_flags := map (\<lambda>g. if fg_name g = name then g\<lparr>fg_required := True\<rparr> else g) (cb_flags c)\<rparr>"

definition check_cmd :: cobra_command where
  "check_cmd = \<lparr>cb_use = ''check'', cb_aliases = [], cb_run = CheckCommand, cb_flags = []\<rparr>"

definition start_cmd :: cobra_command where
  "start_cmd =
     \<lparr>cb_use = ''start'', cb_aliases = [''serve'', ''server''], cb_run = StartCommand, cb_flags = []\<rparr>"

definition bootstrap_cmd :: cobra_command where
  "bootstrap_cmd =
     \<lparr>cb_use = ''up'', cb_aliases = [''bootstrap''], cb_run = UpCommand, cb_flags = []\<rparr>"

definition update_cmd :: cobra_command where
  "update_cmd = \<lparr>cb_use = ''update'', cb_aliases = [], cb_run = UpdateCommand, cb_flags = []\<rparr>"

definition version_cmd :: cobra_command where
  "version_cmd = \<lparr>cb_use = ''version'', cb_aliases = [''v''], cb_run = VersionCommand, cb_flags = []\<rparr>"

text \<open>
  The \<open>init\<close> functions of the files: what they add to the root command.  Go runs them in the
  order of the file names.
\<close>

definition apply_bootstrap_opts :: "cobra_command \<Rightarrow> cobra_command" where
  "apply_bootstrap_opts = add_flags
     [new_flag ''device-name'' ''n'' (StringFlag []), new_flag ''data'' [] (StringFlag default_data_dir),
      new_flag ''server'' [] (StringFlag default_bootstrap_server)]"

definition check_init :: "cobra_command list \<Rightarrow> cobra_command list" where
  "check_init cs = cs @ [check_cmd]"

definition default_config_file :: string where
  "default_config_file = ''/etc/tessad/config.yaml''"

definition root_init :: "cobra_flag list" where
  "root_init = [new_flag ''config'' ''c'' (StringFlag default_config_file)]"

definition start_init :: "cobra_command list \<Rightarrow> cobra_command list" where
  "start_init cs = cs @ [apply_bootstrap_opts start_cmd]"

definition bootstrap_init :: "cobra_command list \<Rightarrow> cobra_command list" where
  "bootstrap_init cs =
     cs @ [mark_flag_required ''token'' (mark_flag_required ''device-name''
       (add_flags [new_flag ''token'' ''t'' (StringFlag []), new_flag ''force'' ''f'' (BoolFlag False)]
         (apply_bootstrap_opts bootstrap_cmd)))]"

definition update_init :: "cobra_command list \<Rightarrow> cobra_command list" where
  "update_init cs = cs @ [update_cmd]"

definition version_init :: "cobra_command list \<Rightarrow> cobra_command list" where
  "version_init cs = cs @ [version_cmd]"

definition root_commands :: "cobra_command list" where
  "root_commands = version_init (update_init (bootstrap_init (start_init (check_init []))))"

text \<open>The variables of \<open>root.go\<close>, which a release build overrides, and the texts printed.\<close>

record build_info =
  bi_version :: string
  bi_commit :: string
  bi_date :: string

definition default_build :: build_info where
  "default_build = \<lparr>bi_version = ''0.0.0'', bi_commit = ''development'', bi_date = ''unknown''\<rparr>"

definition version_text :: "build_info \<Rightarrow> string" where
  "version_text b =
     ''Version: '' @ bi_version b @ ''-'' @ bi_commit b @ newline @ ''Build Date: '' @ bi_date b"

definition update_text :: string where
  "update_text = ''Not yet implemented.'' @ newline"

definition check_text :: string where
  "check_text = ''Not yet implemented.'' @ newline"

section \<open>The command start\<close>

datatype 'd process_end = WaitsForConfig | Dies string | Exits nat | Serves 'd

definition start_command ::
  "('st, 'pst, 'f, 'pkey, 'signer, 'sub) libs \<Rightarrow> (string \<Rightarrow> nats_option list \<Rightarrow> error option) \<Rightarrow>
   (config \<Rightarrow> string result) \<Rightarrow> (string \<Rightarrow> config result) \<Rightarrow> 'key crypto \<Rightarrow> net \<Rightarrow> env \<Rightarrow>
   string \<Rightarrow> cli_flags \<Rightarrow> fs \<Rightarrow> (nat \<Rightarrow> fs) \<Rightarrow>
   ('st, 'pst, 'f, 'pkey, 'signer, 'sub) daemon process_end" where
  "start_command L connect to_yaml unyaml C N env cfg_file fl s polls =
     (case start_config to_yaml unyaml C N env cfg_file fl s polls of
        None \<Rightarrow> WaitsForConfig
      | Some (Panics m) \<Rightarrow> Dies m
      | Some (Returns (conf, device)) \<Rightarrow>
          (case start_server L connect env device conf of
             Panics m \<Rightarrow> Dies m
           | Returns (Inl _) \<Rightarrow> Exits 1
           | Returns (Inr d) \<Rightarrow> Serves d))"

section \<open>The process\<close>

datatype cobra_parse = CobraHelp | CobraError error | Chosen cobra_command string cli_flags

text \<open>\<open>main\<close> and \<open>Execute\<close>: how the process ends or goes on, with what the short commands print.\<close>

definition execute ::
  "(cobra_flag list \<Rightarrow> cobra_command list \<Rightarrow> string list \<Rightarrow> cobra_parse) \<Rightarrow> build_info \<Rightarrow>
   ('st, 'pst, 'f, 'pkey, 'signer, 'sub) libs \<Rightarrow> (string \<Rightarrow> nats_option list \<Rightarrow> error option) \<Rightarrow>
   (config \<Rightarrow> string result) \<Rightarrow> (string \<Rightarrow> config result) \<Rightarrow> 'key crypto \<Rightarrow> net \<Rightarrow> env \<Rightarrow>
   string list \<Rightarrow> fs \<Rightarrow> (nat \<Rightarrow> fs) \<Rightarrow>
   ('st, 'pst, 'f, 'pkey, 'signer, 'sub) daemon process_end \<times> string" where
  "execute parse b L connect to_yaml unyaml C N env args s polls =
     (case parse root_init root_commands args of
        CobraHelp \<Rightarrow> (Exits 0, [])
      | CobraError _ \<Rightarrow> (Exits 1, [])
      | Chosen cmd cfg_file fl \<Rightarrow>
          (case cb_run cmd of
             VersionCommand \<Rightarrow> (Exits 0, version_text b)
           | UpdateCommand \<Rightarrow> (Exits 0, update_text)
           | CheckCommand \<Rightarrow> (Exits 0, check_text)
           | UpCommand \<Rightarrow>
               (case fst (up_command to_yaml C N env cfg_file fl s) of
                  Panics m \<Rightarrow> (Dies m, [])
                | Returns code \<Rightarrow> (Exits code, []))
           | StartCommand \<Rightarrow>
               (start_command L connect to_yaml unyaml C N env cfg_file fl s polls, [])))"

lemma execute_serves:
  assumes "execute parse b L connect to_yaml unyaml C N env args s polls = (Serves d, out)"
  obtains cmd cfg_file fl where "parse root_init root_commands args = Chosen cmd cfg_file fl"
      "cb_run cmd = StartCommand" "out = []"
      "start_command L connect to_yaml unyaml C N env cfg_file fl s polls = Serves d"
  using assms unfolding execute_def
  by (auto split: cobra_parse.splits subcommand.splits outcome.splits)

section \<open>What start brings up\<close>

lemma load_config_tunnel:
  "fst (load_config unyaml env s f g) = Inr c \<Longrightarrow>
     cfg_device c \<noteq> [] \<and> (\<exists>tc. cfg_tunnel c = Some tc)"
  unfolding load_config_Inr_iff by auto

lemma reload_config_Some:
  assumes "reload_config unyaml env cfg_file s g = (Some c, device)"
  shows "fst (load_config unyaml env s cfg_file []) = Inr c" and "device = cfg_device c"
proof -
  from assms have "load_config unyaml env s cfg_file g = (Inr c, device)"
    by (auto simp: reload_config_def split: prod.splits sum.splits)
  then show "fst (load_config unyaml env s cfg_file []) = Inr c" and "device = cfg_device c"
    using load_config_fst [of unyaml env s cfg_file g] load_config_global [of unyaml env s cfg_file g c]
    by simp_all
qed

lemma start_config_cases:
  assumes "start_config to_yaml unyaml C N env cfg_file fl s polls = Some (Returns r)"
  obtains (loaded) c where "load_config unyaml env s cfg_file [] = (Inr c, snd r)" "r = (Some c, snd r)"
  | (reloaded) s' name where "r = reload_config unyaml env cfg_file s' name"
proof (cases "load_config unyaml env s cfg_file []")
  case (Pair x name)
  show ?thesis
  proof (cases x)
    case (Inr c)
    with Pair assms loaded [of c] show ?thesis by (auto simp: start_config_def)
  next
    case (Inl e)
    with Pair assms show ?thesis
      by (auto simp: start_config_def split: prod.splits outcome.splits sum.splits
          intro: reloaded [OF sym])
  qed
qed

lemma start_config_loaded:
  assumes "start_config to_yaml unyaml C N env cfg_file fl s polls = Some (Returns (Some c, device))"
  shows "\<exists>s'. fst (load_config unyaml env s' cfg_file []) = Inr c \<and> device = cfg_device c"
  using assms
proof (cases rule: start_config_cases)
  case (loaded c')
  then have "load_config unyaml env s cfg_file [] = (Inr c, device)" by simp
  with load_config_global [of unyaml env s cfg_file "[]" c] show ?thesis by (intro exI [of _ s]) simp
next
  case (reloaded s' name)
  from reload_config_Some [OF reloaded [symmetric]] show ?thesis by blast
qed

lemma start_server_serves:
  assumes "start_server L connect env device conf = Returns (Inr d)"
  obtains c tc tunnel where "conf = Some c" "cfg_tunnel c = Some tc"
      "new_manager (lb_proxies L) (lb_frp L) device tc = Inr tunnel"
      "initialize L device (new_command_manager L tunnel) = (None, d)"
  using assms unfolding start_server_def
  by (auto split: option.splits outcome.splits if_splits sum.splits error.splits prod.splits)

lemma start_command_serves:
  assumes "start_command L connect to_yaml unyaml C N env cfg_file fl s polls = Serves d"
  obtains c tc tunnel s' where
      "fst (load_config unyaml env s' cfg_file []) = Inr c" "cfg_tunnel c = Some tc"
      "new_manager (lb_proxies L) (lb_frp L) (cfg_device c) tc = Inr tunnel"
      "initialize L (cfg_device c) (new_command_manager L tunnel) = (None, d)"
proof -
  from assms obtain conf device where
      conf: "start_config to_yaml unyaml C N env cfg_file fl s polls = Some (Returns (conf, device))"
    and srv: "start_server L connect env device conf = Returns (Inr d)"
    unfolding start_command_def
    by (auto split: option.splits outcome.splits prod.splits sum.splits)
  from srv obtain c tc tunnel where c: "conf = Some c" "cfg_tunnel c = Some tc"
      "new_manager (lb_proxies L) (lb_frp L) device tc = Inr tunnel"
      "initialize L device (new_command_manager L tunnel) = (None, d)"
    by (rule start_server_serves)
  from start_config_loaded [OF conf [unfolded c(1)]] that c show thesis by blast
qed

section \<open>The daemon while it serves\<close>

fun late_exit :: "('st, 'pst, 'f, 'key, 'signer, 'sub) daemon \<Rightarrow> 'signer dm_event \<Rightarrow> bool" where
  "late_exit d (EvRunExit i err) = stale_exit (dm_tunnel d) (EvExit i err)"
| "late_exit d _ = False"

inductive serving ::
  "('st, 'pst, 'f, 'key, 'signer, 'sub) libs \<Rightarrow> string \<Rightarrow>
   ('st, 'pst, 'f, 'key, 'signer, 'sub) daemon \<Rightarrow> bool"
  for L :: "('st, 'pst, 'f, 'key, 'signer, 'sub) libs" and device :: string where
  started: "new_manager (lb_proxies L) (lb_frp L) device tc = Inr tunnel \<Longrightarrow>
    initialize L device (new_command_manager L tunnel) = (None, d) \<Longrightarrow> serving L device d"
| step: "serving L device d \<Longrightarrow> daemon_step L d ev d' \<Longrightarrow> \<not> late_exit d ev \<Longrightarrow> serving L device d'"

lemma serving_reach: "serving L device d \<Longrightarrow> daemon_reach L device d"
  by (induction rule: serving.induct) (auto intro: daemon_reach.init daemon_reach.step)

text \<open>
  Every step of the daemon is, for its tunnel, a step of the tunnel manager or none at all.
\<close>

lemma start_ssh_server_tunnel:
  "dm_tunnel (start_ssh_server L listen i d) = dm_tunnel d \<or>
   (\<exists>port. dm_tunnel (start_ssh_server L listen i d) =
      snd (proxy_ssh (lb_proxies L) (lb_frp L) loopback port (dm_tunnel d)))"
  by (auto simp: start_ssh_server_def Let_def split: sum.split outcome.split)

lemma command_start_tunnel:
  "dm_tunnel (command_start L listen i d) = dm_tunnel d \<or>
   (\<exists>port. dm_tunnel (command_start L listen i d) =
      snd (proxy_ssh (lb_proxies L) (lb_frp L) loopback port (dm_tunnel d)))"
  using start_ssh_server_tunnel [of L listen i d] by (simp add: command_start_def Let_def)

lemma command_stop_tunnel:
  "dm_tunnel (command_stop L i d) = dm_tunnel d \<or>
   (\<exists>port. dm_tunnel (command_stop L i d) =
      snd (un_proxy (lb_proxies L) (lb_frp L) loopback port (dm_tunnel d)))"
  by (auto simp: command_stop_def Let_def split: option.split outcome.split prod.split)

lemma untouched_tunnel:
  "dm_tunnel (on_message L doc d) = dm_tunnel d"
  "dm_tunnel (snd (remove_command L cid d)) = dm_tunnel d"
  "dm_tunnel (run_handler L gen j d) = dm_tunnel d"
  by (auto simp: on_message_def add_command_def add_commit_def remove_command_def run_handler_def
      Let_def split: sum.split option.split outcome.split prod.split)

lemma daemon_step_tunnel:
  assumes "daemon_step L d ev d'" and "\<not> late_exit d ev"
  shows "dm_tunnel d' = dm_tunnel d \<or>
    (\<exists>mev. manager_step (lb_proxies L) (lb_frp L) (dm_tunnel d) mev (dm_tunnel d') \<and>
       \<not> stale_exit (dm_tunnel d) mev)"
  using assms(1)
proof cases
  case (start i listen)
  then show ?thesis
    using command_start_tunnel [of L listen i d] manager_step.proxy by (metis stale_exit.simps(2))
next
  case (finish i)
  then show ?thesis
    using command_stop_tunnel [of L i d] manager_step.unproxy by (metis stale_exit.simps(3))
next
  case (run_exit i err)
  then show ?thesis using assms(2) manager_step.exit by fastforce
qed (simp_all add: untouched_tunnel)

lemma initialize_tunnel:
  assumes "initialize L device d = (None, d')"
  obtains sub where "lb_subscribe L (commands_subject device) = Inr sub"
    "d' = add_command L (new_command enable_beszel_command (BeszelPayload default_beszel))
            (d\<lparr>dm_subs := dm_subs d @ [sub]\<rparr>)"
  using assms by (auto simp: initialize_def start_subscriptions_def split: sum.splits)

lemma add_command_other:
  "dm_tunnel (add_command L c d) = dm_tunnel d" "dm_subs (add_command L c d) = dm_subs d"
  "dm_crashed (add_command L c d) = dm_crashed d"
  by (simp_all add: add_command_def add_commit_def)

lemma serving_tunnel: "serving L device d \<Longrightarrow> mgr_inv (lb_proxies L) (dm_tunnel d)"
proof (induction rule: serving.induct)
  case (started tc tunnel d)
  then show ?case
    by (auto elim!: initialize_tunnel simp: add_command_other new_command_manager_def
        intro: new_manager_inv)
next
  case (step d ev d')
  then show ?case using daemon_step_tunnel manager_step_inv by metis
qed

lemma remove_all_tunnel: "dm_tunnel (snd (remove_all L js d)) = dm_tunnel d"
proof (induction L js d rule: remove_all.induct)
  case (2 L i js d)
  obtain e d1 where r: "remove_command L (cd_id (dm_heap d ! i)) d = (e, d1)" by force
  then have "dm_tunnel d1 = dm_tunnel d" using untouched_tunnel(2) [of L "cd_id (dm_heap d ! i)" d] by simp
  with 2 r show ?case by (cases e) simp_all
qed simp

lemma stop_manager_tunnel: "dm_tunnel (snd (stop_manager L d)) = dm_tunnel d"
  by (simp add: stop_manager_def remove_all_tunnel split: option.split)

section \<open>The first start\<close>

lemma load_bootstrapped:
  assumes "read_file s cfg_file = Inr doc" and "unyaml doc = Inr conf"
    and "conf = bootstrapped_config name data_dir" and "name \<noteq> []"
  shows "load_config unyaml env s cfg_file g =
    (Inr (conf\<lparr>cfg_tunnel := Some \<lparr>tc_server = tunnel_addr env,
        tc_ca = data_dir @ ''/credentials/root.crt'', tc_key = data_dir @ ''/credentials/device.key'',
        tc_cert = data_dir @ ''/credentials/device.crt''\<rparr>\<rparr>), name)"
  using assms by (simp add: load_config_def bootstrapped_config_def)

text \<open>The bootstrap with the token of the installer, and the removal of the token.\<close>

lemma try_first_bootstrap_ok:
  assumes token: "read_file s (fl_data fl @ ''/token'') = Inr token"
    and boot: "bootstrap to_yaml C N env cfg_file (fl_device_name fl) token (fl_data fl) (fl_server fl) s =
      (Returns (Inr conf), s1)"
  shows "try_first_bootstrap to_yaml C N env cfg_file fl s =
    (Returns (Inr conf), set_node (at s (fl_data fl @ ''/token'')) None s1)"
proof -
  let ?t = "fl_data fl @ ''/token''"
  have node: "content s ?t \<noteq> None" "\<not> fs_denied s (at s ?t)" "stat_ok s ?t"
    using token by (auto simp: read_file_def content_def stat_ok_def split: if_splits option.splits node.splits)
  have "content s1 ?t \<noteq> None" "\<not> fs_denied s1 (at s1 ?t)"
    using bootstrap_keeps [OF boot] node by simp_all
  then obtain d where "read_file s1 ?t = Inr d"
    by (auto simp: read_file_def content_def split: option.splits node.splits)
  from remove_file_ok [OF this] bootstrap_keeps(1) [OF boot] token boot node(3) show ?thesis
    by (simp add: try_first_bootstrap_def get_bootstrap_opts_def)
qed

section \<open>Properties\<close>

text \<open>
  C15.  What a process serves, when it serves, whatever its arguments and whichever way it came to
  its configuration: it runs the command \<open>start\<close> and prints none of the short texts; the device
  has a name, the daemon listens on that device's subject of the control plane with one
  subscription, its only command is the default one, its tunnel manager works for the device
  and runs nothing yet, and the state is one the step relation starts from.
\<close>

theorem start_serves_fresh_daemon:
  assumes "execute parse b L connect to_yaml unyaml C N env args s polls = (Serves d, out)"
    and "command_registry L"
  shows "(\<exists>cmd cfg_file fl. parse root_init root_commands args = Chosen cmd cfg_file fl \<and>
      cb_run cmd = StartCommand) \<and> out = [] \<and>
    (\<exists>device sub. device \<noteq> [] \<and> serving L device d \<and> \<not> dm_crashed d \<and>
    lb_subscribe L (commands_subject device) = Inr sub \<and> dm_subs d = [sub] \<and>
    mg_device (dm_tunnel d) = device \<and> mg_cancel (dm_tunnel d) = None \<and>
    (\<forall>cid. get_command L cid d =
       (if cid = enable_beszel_command then Inr 0 else Inl (Error ''command not found''))))"
proof -
  from assms(1) obtain cmd cfg_file fl where
      p: "parse root_init root_commands args = Chosen cmd cfg_file fl" "cb_run cmd = StartCommand" "out = []"
    and st: "start_command L connect to_yaml unyaml C N env cfg_file fl s polls = Serves d"
    by (rule execute_serves)
  from st show ?thesis
  proof (rule start_command_serves)
    fix c :: config and tc tunnel s'
    let ?dev = "cfg_device c"
    assume c: "fst (load_config unyaml env s' cfg_file []) = Inr c"
      and m: "new_manager (lb_proxies L) (lb_frp L) ?dev tc = Inr tunnel"
      and i: "initialize L ?dev (new_command_manager L tunnel) = (None, d)"
    from i obtain sub where sub: "lb_subscribe L (commands_subject ?dev) = Inr sub"
        "d = add_command L (new_command enable_beszel_command (BeszelPayload default_beszel))
           (new_command_manager L tunnel\<lparr>dm_subs := dm_subs (new_command_manager L tunnel) @ [sub]\<rparr>)"
      by (rule initialize_tunnel)
    have kv: "kv_store (lb_store L)" using assms(2) by (simp add: command_registry_def)
    have "get_command L cid d =
        (if cid = enable_beszel_command then Inr 0 else Inl (Error ''command not found''))" for cid
      by (simp add: sub(2) get_command_def add_command_def add_commit_def new_command_manager_def
          new_command_def kv_store.has_iff [OF kv] kv_store.get_new [OF kv] kv_store.get_set [OF kv])
    moreover have "mg_device tunnel = ?dev" "mg_cancel tunnel = None"
      using m by (auto simp: new_manager_def outcome_simps)
    ultimately show ?thesis
      using serving.started [OF m i] load_config_tunnel [OF c] sub p
      by (intro conjI exI [of _ ?dev] exI [of _ sub]) (simp_all add: add_command_other new_command_manager_def)
  qed
qed


text \<open>
  C14.  The first start of an installed device.  When no configuration loads and the data
  directory holds a token with which the bootstrap succeeds, \<open>start\<close> goes on at once, without
  waiting, with the configuration that the bootstrap wrote (provided YAML reads what it wrote,
  the device has a name and the configuration is not kept in the token file), and the token is
  gone.
\<close>

theorem first_start_bootstraps:
  assumes none: "fst (load_config unyaml env s cfg_file []) = Inl e"
    and token: "read_file s (fl_data fl @ ''/token'') = Inr token"
    and boot: "bootstrap to_yaml C N env cfg_file (fl_device_name fl) token (fl_data fl) (fl_server fl) s =
      (Returns (Inr conf), s1)"
    and yaml: "\<And>doc. to_yaml conf = Inr doc \<Longrightarrow> unyaml doc = Inr conf"
    and name: "cfg_device conf \<noteq> []"
    and apart: "at s cfg_file \<noteq> at s (fl_data fl @ ''/token'')"
  shows "start_config to_yaml unyaml C N env cfg_file fl s polls =
      Some (Returns (Some (conf\<lparr>cfg_tunnel := Some \<lparr>tc_server = tunnel_addr env,
          tc_ca = fl_data fl @ ''/credentials/root.crt'', tc_key = fl_data fl @ ''/credentials/device.key'',
          tc_cert = fl_data fl @ ''/credentials/device.crt''\<rparr>\<rparr>), cfg_device conf)) \<and>
    \<not> stat_ok (snd (try_first_bootstrap to_yaml C N env cfg_file fl s)) (fl_data fl @ ''/token'')"
proof
  let ?t = "fl_data fl @ ''/token''"
  let ?s = "set_node (at s ?t) None s1"
  note first = try_first_bootstrap_ok [OF token boot]
  from boot obtain n where conf: "conf = bootstrapped_config n (fl_data fl)" by (rule bootstrap_ok)
  with name have n: "n \<noteq> []" "cfg_device conf = n" by (simp_all add: bootstrapped_config_def)
  from boot obtain doc where doc: "to_yaml conf = Inr doc" "read_file s1 cfg_file = Inr doc"
    by (rule bootstrap_config_file)
  have "read_file ?s cfg_file = Inr doc"
    using doc(2) apart bootstrap_keeps(1) [OF boot] by (simp add: read_file_set_node)
  from load_bootstrapped [where unyaml = unyaml, OF this yaml [OF doc(1)] conf n(1)]
  show "start_config to_yaml unyaml C N env cfg_file fl s polls =
      Some (Returns (Some (conf\<lparr>cfg_tunnel := Some \<lparr>tc_server = tunnel_addr env,
          tc_ca = fl_data fl @ ''/credentials/root.crt'', tc_key = fl_data fl @ ''/credentials/device.key'',
          tc_cert = fl_data fl @ ''/credentials/device.crt''\<rparr>\<rparr>), cfg_device conf))"
    using none by (auto simp: start_config_def first reload_config_def n(2) split_beta split: sum.split)
  have "at s ?t \<noteq> []"
    using resolve_child_not_root [of "''token''" "fs_cwd s" "fl_data fl"] by (simp add: plain_name_def)
  then show "\<not> stat_ok (snd (try_first_bootstrap to_yaml C N env cfg_file fl s)) ?t"
    using bootstrap_keeps(1) [OF boot] by (simp add: first stat_ok_def)
qed

section \<open>Witnesses\<close>

lemma demo_new_manager_any: "new_manager proxy_alist listing_frp ''rpi3'' tc = Inr demo_manager"
  by (simp add: new_manager_def new_service_def listing_frp_def alist_store_def demo_manager_def)

lemma demo_serving: "serving demo_daemon_libs ''rpi3'' demo_daemon"
  by (rule serving.started [where tc = demo_tunnel_conf and tunnel = demo_manager])
    (simp_all add: demo_new_manager_any demo_daemon_def initialize_def start_subscriptions_def)

lemma demo_ssh_serving: "serving demo_daemon_libs ''rpi3'' demo_ssh_daemon"
proof -
  have "\<not> dm_crashed demo_daemon" by (simp add: demo_daemon_eq)
  note start = started_command [OF demo_command_registry demo_daemon_reach this _ decode_ssh_request]
  have "serving demo_daemon_libs ''rpi3'' (on_message demo_daemon_libs (ssh_request ''ca'') demo_daemon)"
    by (rule serving.step [OF demo_serving daemon_step.message]) (simp_all add: demo_daemon_eq)
  then show ?thesis
    unfolding demo_ssh_daemon_def ssh_requested_def
    by (rule serving.step [OF _ start(6)])
      (simp_all add: demo_ssh_free, simp_all add: start_ssh_command_def)
qed

definition demo_parse :: "cobra_flag list \<Rightarrow> cobra_command list \<Rightarrow> string list \<Rightarrow> cobra_parse" where
  "demo_parse pf cs args = Chosen (cs ! 1) ''/d/c.yaml'' default_flags"

lemma demo_parse_start: "demo_parse root_init root_commands args =
    Chosen (apply_bootstrap_opts start_cmd) ''/d/c.yaml'' default_flags"
  by (simp add: demo_parse_def root_commands_def version_init_def update_init_def bootstrap_init_def
      start_init_def check_init_def)

lemma demo_start_serves:
  "execute demo_parse default_build demo_daemon_libs (\<lambda>_ _. None) demo_yaml (\<lambda>_. Inr demo_config) demo_crypto demo_net
     (\<lambda>_. []) [''start''] demo_config_fs (\<lambda>_. demo_config_fs) = (Serves demo_daemon, [])"
  by (simp add: execute_def demo_parse_start apply_bootstrap_opts_def add_flags_def start_cmd_def
      start_command_def start_config_def demo_load)
    (simp add: start_server_def nats_options_def nats_url_def default_nats_url_def has_prefix_def
      demo_config_def demo_new_manager_any initialize_def start_subscriptions_def demo_daemon_def)

theorem start_serves_fresh_daemon_witness:
  "get_command demo_daemon_libs ''enable-beszel'' demo_daemon = Inr 0 \<and>
   get_command demo_daemon_libs ''start-ssh'' demo_daemon = Inl (Error ''command not found'')"
  using start_serves_fresh_daemon [OF demo_start_serves demo_command_registry]
  by (auto simp: enable_beszel_command_def)


definition demo_token_fs :: fs where
  "demo_token_fs = \<lparr>fs_nodes = [[''d''] \<mapsto> Dir 493, [''d'', ''token''] \<mapsto> File ''t'' 384],
     fs_cwd = [], fs_umask = 18, fs_denied = (\<lambda>k. False), fs_nospace = (\<lambda>k. False)\<rparr>"

definition demo_flags :: cli_flags where
  "demo_flags = default_flags\<lparr>fl_device_name := ''rpi3'', fl_data := ''/d''\<rparr>"

lemma demo_token_bootstrap:
  "fst (bootstrap demo_yaml demo_crypto demo_net (\<lambda>_. []) ''/d/c.yaml'' ''rpi3'' ''t'' ''/d''
     default_bootstrap_server demo_token_fs) = Returns (Inr (bootstrapped_config ''rpi3'' ''/d''))"
  by (simp add: bootstrap_def credentials_dir_def device_bootstrap_def demo_token_fs_def demo_net_def
      demo_crypto_def mkdir_all_def resolve_def rooted_def has_prefix_def new_sign_request_def
      outcome_simps save_credentials_def write_file_def encode_private_key_def is_dir_def
      write_config_def demo_yaml_def Let_def)

theorem first_start_bootstraps_witness:
  "\<exists>c. start_config demo_yaml demo_unyaml demo_crypto demo_net (\<lambda>_. []) ''/d/c.yaml'' demo_flags
     demo_token_fs (\<lambda>_. demo_token_fs) = Some (Returns (Some c, ''rpi3''))"
proof -
  let ?conf = "bootstrapped_config ''rpi3'' ''/d''"
  let ?r = "bootstrap demo_yaml demo_crypto demo_net (\<lambda>_. []) ''/d/c.yaml'' ''rpi3'' ''t'' ''/d''
     default_bootstrap_server demo_token_fs"
  have fl: "fl_device_name demo_flags = ''rpi3''" "fl_data demo_flags = ''/d''"
      "fl_server demo_flags = default_bootstrap_server"
    by (simp_all add: demo_flags_def default_flags_def)
  have boot: "?r = (Returns (Inr ?conf), snd ?r)" using demo_token_bootstrap by (simp add: prod_eq_iff)
  have none: "fst (load_config demo_unyaml (\<lambda>_. []) demo_token_fs ''/d/c.yaml'' []) = Inl not_exist_error"
    by (simp add: load_config_def read_file_def demo_token_fs_def resolve_def rooted_def has_prefix_def)
  have token: "read_file demo_token_fs (''/d'' @ ''/token'') = Inr ''t''"
    by (simp add: read_file_def demo_token_fs_def resolve_def rooted_def has_prefix_def)
  have law: "demo_yaml ?conf = Inr doc \<Longrightarrow> demo_unyaml doc = Inr ?conf" for doc
    by (simp add: demo_yaml_def demo_unyaml_def bootstrapped_config_def)
  have name: "cfg_device ?conf \<noteq> []" by (simp add: bootstrapped_config_def)
  have apart: "at demo_token_fs ''/d/c.yaml'' \<noteq> at demo_token_fs (''/d'' @ ''/token'')"
    by (simp add: resolve_def rooted_def has_prefix_def)
  have "cfg_device ?conf = ''rpi3''" by (simp add: bootstrapped_config_def)
  with first_start_bootstraps [of demo_unyaml "\<lambda>_. []" demo_token_fs "''/d/c.yaml''" not_exist_error
      demo_flags "''t''" demo_yaml demo_crypto demo_net ?conf "snd ?r", unfolded fl, OF none token boot law name apart]
  show ?thesis by auto
qed

end
